theory Spec2Isabelle
  imports Complex_Main
begin

section \<open>Strings and floating-point values\<close>

text \<open>
  The development embeds \<^verbatim>\<open>VideoCompressorThread\<close> of \<^verbatim>\<open>Main.py\<close>. Python strings are
  modelled as \<^typ>\<open>string\<close>, restricted to ASCII: whitespace is the ASCII part of what
  \<^verbatim>\<open>str.isspace\<close> accepts and digits are \<^verbatim>\<open>0\<close> to \<^verbatim>\<open>9\<close>.

  Python floats are idealised: a finite float is a real number (no rounding, no overflow), and
  the three non-finite values are kept apart, because \<^verbatim>\<open>float()\<close> produces them from the
  literals \<^verbatim>\<open>inf\<close>, \<^verbatim>\<open>infinity\<close> and \<^verbatim>\<open>nan\<close>.
\<close>

datatype pyfloat = Fin real | PInf | NInf | NaN

fun pf_add :: "pyfloat \<Rightarrow> pyfloat \<Rightarrow> pyfloat" where
  "pf_add (Fin a) (Fin b) = Fin (a + b)"
| "pf_add NaN _ = NaN"
| "pf_add _ NaN = NaN"
| "pf_add PInf NInf = NaN"
| "pf_add NInf PInf = NaN"
| "pf_add PInf _ = PInf"
| "pf_add _ PInf = PInf"
| "pf_add NInf _ = NInf"
| "pf_add _ NInf = NInf"

text \<open>Multiplication and division of a float by a positive finite constant.\<close>

fun pf_scale :: "pyfloat \<Rightarrow> real \<Rightarrow> pyfloat" where
  "pf_scale (Fin a) k = Fin (a * k)"
| "pf_scale x k = x"

fun pf_div :: "pyfloat \<Rightarrow> real \<Rightarrow> pyfloat" where
  "pf_div (Fin a) k = Fin (a / k)"
| "pf_div x k = x"

text \<open>\<^verbatim>\<open>min(x, c)\<close> returns \<^verbatim>\<open>c\<close> only when \<^verbatim>\<open>c < x\<close>, so a NaN first argument is returned.\<close>

fun pf_min :: "pyfloat \<Rightarrow> real \<Rightarrow> pyfloat" where
  "pf_min (Fin a) c = Fin (if c < a then c else a)"
| "pf_min PInf c = Fin c"
| "pf_min NInf c = NInf"
| "pf_min NaN c = NaN"

definition is_space :: "char \<Rightarrow> bool" where
  "is_space c = (c \<in> set [CHR 0x09, CHR 0x0A, CHR 0x0B, CHR 0x0C, CHR 0x0D,
                           CHR 0x1C, CHR 0x1D, CHR 0x1E, CHR 0x1F, CHR 0x20])"

definition is_digit :: "char \<Rightarrow> bool" where
  "is_digit c = (c \<in> set ''0123456789'')"

definition digit_val :: "char \<Rightarrow> nat" where
  "digit_val c = length (takeWhile (\<lambda>d. d \<noteq> c) ''0123456789'')"

definition lower_char :: "char \<Rightarrow> char" where
  "lower_char c =
     (case map_of (zip ''ABCDEFGHIJKLMNOPQRSTUVWXYZ'' ''abcdefghijklmnopqrstuvwxyz'') c of
        Some l \<Rightarrow> l
      | None \<Rightarrow> c)"

definition lstrip :: "string \<Rightarrow> string" where
  "lstrip s = dropWhile is_space s"

definition strip :: "string \<Rightarrow> string" where
  "strip s = rev (dropWhile is_space (rev (dropWhile is_space s)))"

text \<open>\<^verbatim>\<open>s.split(sep)\<close> for a one-character separator: never the empty list.\<close>

fun split_char :: "char \<Rightarrow> string \<Rightarrow> string list" where
  "split_char sep [] = [[]]"
| "split_char sep (c # cs) =
     (let ps = split_char sep cs
      in if c = sep then [] # ps else (c # hd ps) # tl ps)"

text \<open>\<^verbatim>\<open>s.replace(',', '.')\<close>.\<close>

definition replace_char :: "char \<Rightarrow> char \<Rightarrow> string \<Rightarrow> string" where
  "replace_char a b s = map (\<lambda>c. if c = a then b else c) s"

text \<open>\<^verbatim>\<open>pat in s\<close>.\<close>

fun contains :: "string \<Rightarrow> string \<Rightarrow> bool" where
  "contains pat [] = (pat = [])"
| "contains pat (c # cs) = (take (length pat) (c # cs) = pat \<or> contains pat cs)"

text \<open>The text after the first occurrence of \<open>pat\<close>, and the text before it.\<close>

fun after_first :: "string \<Rightarrow> string \<Rightarrow> string option" where
  "after_first pat [] = (if pat = [] then Some [] else None)"
| "after_first pat (c # cs) =
     (if take (length pat) (c # cs) = pat then Some (drop (length pat) (c # cs))
      else after_first pat cs)"

fun before_first :: "string \<Rightarrow> string \<Rightarrow> string" where
  "before_first pat [] = []"
| "before_first pat (c # cs) =
     (if take (length pat) (c # cs) = pat then [] else c # before_first pat cs)"

subsection \<open>The literals accepted by \<^verbatim>\<open>float()\<close>\<close>

text \<open>
  A digit part is a digit followed by digits, each optionally preceded by one underscore.
  \<open>digits_us\<close> is entered at a digit and returns the digits read and the rest.
\<close>

fun digits_us :: "string \<Rightarrow> nat list \<times> string" where
  "digits_us [] = ([], [])"
| "digits_us (c # cs) =
     (if is_digit c then (let (ds, r) = digits_us cs in (digit_val c # ds, r))
      else if c = CHR ''_'' \<and> cs \<noteq> [] \<and> is_digit (hd cs) then digits_us cs
      else ([], c # cs))"

definition digitpart :: "string \<Rightarrow> (nat list \<times> string) option" where
  "digitpart s = (if s \<noteq> [] \<and> is_digit (hd s) then Some (digits_us s) else None)"

definition nat_of_digits :: "nat list \<Rightarrow> nat" where
  "nat_of_digits ds = foldl (\<lambda>a d. 10 * a + d) 0 ds"

text \<open>\<open>number\<close>: \<^verbatim>\<open>digitpart ["." [digitpart]] | "." digitpart\<close>, with its value and the rest.\<close>

definition fraction :: "nat list \<Rightarrow> real" where
  "fraction ds = real (nat_of_digits ds) / 10 ^ length ds"

definition number :: "string \<Rightarrow> (real \<times> string) option" where
  "number s =
     (case digitpart s of
        Some (ip, r) \<Rightarrow>
          (if r \<noteq> [] \<and> hd r = CHR ''.'' then
             (case digitpart (tl r) of
                Some (fp, r') \<Rightarrow> Some (real (nat_of_digits ip) + fraction fp, r')
              | None \<Rightarrow> Some (real (nat_of_digits ip), tl r))
           else Some (real (nat_of_digits ip), r))
      | None \<Rightarrow>
          (if s \<noteq> [] \<and> hd s = CHR ''.'' then
             (case digitpart (tl s) of
                Some (fp, r') \<Rightarrow> Some (fraction fp, r')
              | None \<Rightarrow> None)
           else None))"

definition sign_of :: "string \<Rightarrow> bool \<times> string" where
  "sign_of s =
     (if s \<noteq> [] \<and> hd s = CHR ''-'' then (True, tl s)
      else if s \<noteq> [] \<and> hd s = CHR ''+'' then (False, tl s)
      else (False, s))"

text \<open>The exponent, which must end the literal: the power of ten, or \<open>None\<close> when malformed.\<close>

definition exponent :: "string \<Rightarrow> int option" where
  "exponent r =
     (if r = [] then Some 0
      else if hd r = CHR ''e'' \<or> hd r = CHR ''E'' then
        (let (neg, r1) = sign_of (tl r)
         in case digitpart r1 of
              Some (ds, r2) \<Rightarrow>
                (if r2 = [] then Some (if neg then - int (nat_of_digits ds) else int (nat_of_digits ds))
                 else None)
            | None \<Rightarrow> None)
      else None)"

definition pow10 :: "real \<Rightarrow> int \<Rightarrow> real" where
  "pow10 m e = (if 0 \<le> e then m * 10 ^ nat e else m / 10 ^ nat (- e))"

text \<open>
  \<^verbatim>\<open>float(s)\<close>: \<open>None\<close> is the \<^verbatim>\<open>ValueError\<close>. The blanks it strips are fewer than those
  of \<^verbatim>\<open>str.strip\<close>: the separators \<^verbatim>\<open>0x1C\<close> to \<^verbatim>\<open>0x1F\<close> are not among them.
\<close>

definition is_float_space :: "char \<Rightarrow> bool" where
  "is_float_space c = (c \<in> set [CHR 0x09, CHR 0x0A, CHR 0x0B, CHR 0x0C, CHR 0x0D, CHR 0x20])"

definition float_strip :: "string \<Rightarrow> string" where
  "float_strip s = rev (dropWhile is_float_space (rev (dropWhile is_float_space s)))"

definition float_of_string :: "string \<Rightarrow> pyfloat option" where
  "float_of_string s0 =
     (let (neg, s1) = sign_of (float_strip s0); low = map lower_char s1
      in if low = ''inf'' \<or> low = ''infinity'' then Some (if neg then NInf else PInf)
         else if low = ''nan'' then Some NaN
         else case number s1 of
                None \<Rightarrow> None
              | Some (m, r) \<Rightarrow>
                  (case exponent r of
                     None \<Rightarrow> None
                   | Some e \<Rightarrow> Some (Fin (pow10 (if neg then - m else m) e))))"

section \<open>The time parser\<close>

text \<open>
  \<^verbatim>\<open>parse_time_to_seconds\<close>. \<open>float_parts\<close> is \<^verbatim>\<open>list(map(float, ...))\<close>, whose first
  \<^verbatim>\<open>ValueError\<close> is caught by the bare \<^verbatim>\<open>except\<close>, which returns 0. A split never yields
  the empty list, so \<^verbatim>\<open>parts[0]\<close> of the last branch exists.
\<close>

fun float_parts :: "string list \<Rightarrow> pyfloat list option" where
  "float_parts [] = Some []"
| "float_parts (p # ps) =
     (case float_of_string p of
        None \<Rightarrow> None
      | Some x \<Rightarrow> (case float_parts ps of None \<Rightarrow> None | Some xs \<Rightarrow> Some (x # xs)))"

definition parse_time_to_seconds :: "string \<Rightarrow> pyfloat" where
  "parse_time_to_seconds time_str =
     (case float_parts (split_char CHR '':'' (replace_char CHR '','' CHR ''.'' time_str)) of
        None \<Rightarrow> Fin 0
      | Some parts \<Rightarrow>
          (if length parts = 3 then
             pf_add (pf_add (pf_scale (parts ! 0) 3600) (pf_scale (parts ! 1) 60)) (parts ! 2)
           else if length parts = 2 then pf_add (pf_scale (parts ! 0) 60) (parts ! 1)
           else (case parts of x # _ \<Rightarrow> x | [] \<Rightarrow> Fin 0)))"

section \<open>Jobs, the file system and the events of a run\<close>

text \<open>
  A path is a folder and a base name: \<open>Cliputils_folder\<close> is \<^verbatim>\<open>self.cliputils_folder\<close>, the
  scratch folder under \<^verbatim>\<open>APPDATA\<close>, so that \<^verbatim>\<open>os.path.join(self.cliputils_folder, n)\<close> is
  \<open>Path Cliputils_folder n\<close> and \<^verbatim>\<open>os.path.basename\<close> is the selector \<open>basename\<close>.
\<close>

datatype folder = Cliputils_folder | Other_folder string

datatype path = Path (folder_of: folder) (basename: string)

text \<open>
  An entry of the file system: a regular file with its contents, a directory, or an entry
  for which \<^verbatim>\<open>os.path.isfile\<close> and \<^verbatim>\<open>os.path.isdir\<close> are both false (a dangling link).
\<close>

datatype node = File string | Dir | Dangling

text \<open>
  Exceptions. Those raised by the source carry the source's message; those raised by the
  interpreter or the operating system carry none, except where CPython fixes the text.
\<close>

datatype exn =
    TypeError
  | IndexError
  | ZeroDivisionError
  | OverflowError string
  | ValueError string
  | RuntimeError string
  | FileNotFoundError string
  | OSError

text \<open>
  The two invocation shapes of the engine. \<open>Trim_copy ss inp to out\<close> is the command of
  \<^verbatim>\<open>trim_video\<close>; \<open>Encode_pass n inp bitrate out\<close> is \<^verbatim>\<open>command_pass1\<close> (\<open>out = None\<close>, the
  sink \<^verbatim>\<open>NUL\<close>) or \<^verbatim>\<open>command_pass2\<close>. The bitrate is \<open>None\<close> when the formatted value is
  Python's \<^verbatim>\<open>None\<close>.
\<close>

datatype command =
    Trim_copy real path real path
  | Encode_pass nat path "real option" "path option"

text \<open>
  The signals of the thread. \<open>Error_signal e\<close> stands for the text \<^verbatim>\<open>f"Error: {str(e)}"\<close>;
  \<open>Done_signal out t sz\<close> carries the size \<open>sz\<close> that the source formats as \<^verbatim>\<open>f"{sz} MB"\<close>.
\<close>

datatype signal =
    Log_signal string
  | Progress_signal int
  | Done_signal path real real
  | Error_signal exn

text \<open>
  What a run does, in order: signals emitted, subprocesses started, the move of the trimmed
  file, the start of \<^verbatim>\<open>cleanup_temp_files\<close> and the messages it prints.
\<close>

datatype action =
    Emit signal
  | Popen command
  | Move path path
  | Cleanup
  | Print_delete_error string

record job =
  input_file :: path
  output_file :: path
  target_size :: "real option"
  target_bitrate :: "real option"
  start_time :: "real option"
  end_time :: "real option"

text \<open>
  The outcome of starting a subprocess: \<^verbatim>\<open>Popen\<close> raises, or the process runs, prints the
  lines of its diagnostic stream, leaves files behind and exits with a return code.
\<close>

datatype proc = Launch_failed | Ran "string list" int "(path \<times> string) list"

text \<open>
  The collaborators, as the answers they give during one run: whether the engine's binaries
  exist, what each command does, what the probe reports for a file, whether a log file can be
  opened, whether \<^verbatim>\<open>shutil.move\<close> fails (and with which text), which scratch entries cannot be
  deleted, and the wall-clock seconds between the two readings of the clock. The probe is
  taken to report a finite duration or none. Writing to an open log file, listing the
  scratch folder (which the constructor has created) and emitting a signal are taken not
  to raise.
\<close>

record env =
  ffmpeg_present :: bool
  engine :: "command \<Rightarrow> proc"
  probe :: "path \<Rightarrow> real option"
  open_fails :: "string \<Rightarrow> bool"
  move_error :: "string option"
  undeletable :: "string \<Rightarrow> bool"
  elapsed :: real

text \<open>
  The state: the entries of the scratch folder in listing order, the files elsewhere, the
  actions so far, and the attributes \<^verbatim>\<open>last_progress\<close> and \<^verbatim>\<open>temp_files\<close> of the thread.
\<close>

record world =
  scratch :: "(string \<times> node) list"
  elsewhere :: "string \<times> string \<Rightarrow> node option"
  trace :: "action list"
  last_progress :: int
  temp_files :: "path list"

text \<open>The state that \<^verbatim>\<open>__init__\<close> leaves: \<^verbatim>\<open>last_progress = 0\<close>, \<^verbatim>\<open>temp_files = []\<close>.\<close>

definition init_world :: "(string \<times> node) list \<Rightarrow> (string \<times> string \<Rightarrow> node option) \<Rightarrow> world" where
  "init_world sc el =
     \<lparr>scratch = sc, elsewhere = el, trace = [], last_progress = 0, temp_files = []\<rparr>"

definition act :: "action \<Rightarrow> world \<Rightarrow> world" where
  "act a w = w\<lparr>trace := trace w @ [a]\<rparr>"

definition emit :: "signal \<Rightarrow> world \<Rightarrow> world" where
  "emit s w = act (Emit s) w"

subsection \<open>Files\<close>

fun put_entry :: "string \<Rightarrow> node \<Rightarrow> (string \<times> node) list \<Rightarrow> (string \<times> node) list" where
  "put_entry n v [] = [(n, v)]"
| "put_entry n v ((m, u) # es) = (if m = n then (n, v) # es else (m, u) # put_entry n v es)"

definition fs_read :: "world \<Rightarrow> path \<Rightarrow> node option" where
  "fs_read w p =
     (case folder_of p of
        Cliputils_folder \<Rightarrow> map_of (scratch w) (basename p)
      | Other_folder d \<Rightarrow> elsewhere w (d, basename p))"

definition fs_write :: "path \<Rightarrow> node \<Rightarrow> world \<Rightarrow> world" where
  "fs_write p v w =
     (case folder_of p of
        Cliputils_folder \<Rightarrow> w\<lparr>scratch := put_entry (basename p) v (scratch w)\<rparr>
      | Other_folder d \<Rightarrow> w\<lparr>elsewhere := (elsewhere w)((d, basename p) := Some v)\<rparr>)"

definition fs_remove :: "path \<Rightarrow> world \<Rightarrow> world" where
  "fs_remove p w =
     (case folder_of p of
        Cliputils_folder \<Rightarrow> w\<lparr>scratch := filter (\<lambda>e. fst e \<noteq> basename p) (scratch w)\<rparr>
      | Other_folder d \<Rightarrow> w\<lparr>elsewhere := (elsewhere w)((d, basename p) := None)\<rparr>)"

text \<open>The files a finished subprocess leaves behind.\<close>

fun leave_files :: "(path \<times> string) list \<Rightarrow> world \<Rightarrow> world" where
  "leave_files [] w = w"
| "leave_files ((p, c) # fs) w = leave_files fs (fs_write p (File c) w)"

text \<open>
  Python's \<^verbatim>\<open>round(x, 1)\<close> on the idealised float: to the nearest tenth, a tie to the even
  tenth.
\<close>

definition py_round1 :: "real \<Rightarrow> real" where
  "py_round1 x =
     (let y = x * 10; f = \<lfloor>y\<rfloor>; r = y - of_int f
      in if r < 1 / 2 then of_int f / 10
         else if 1 / 2 < r then of_int (f + 1) / 10
         else if even f then of_int f / 10
         else of_int (f + 1) / 10)"

text \<open>
  \<^verbatim>\<open>get_file_size\<close>: megabytes rounded to one decimal. \<^verbatim>\<open>os.path.getsize\<close> raises for a
  missing file and a dangling link; a directory is taken to have size 0.
\<close>

definition get_file_size :: "world \<Rightarrow> path \<Rightarrow> exn + real" where
  "get_file_size w p =
     (case fs_read w p of
        None \<Rightarrow> Inl OSError
      | Some Dangling \<Rightarrow> Inl OSError
      | Some Dir \<Rightarrow> Inr (py_round1 0)
      | Some (File c) \<Rightarrow> Inr (py_round1 (real (length c) / (1024 * 1024))))"

text \<open>\<^verbatim>\<open>get_ffmpeg_path\<close>, of which only the failure matters here.\<close>

definition get_ffmpeg_path :: "env \<Rightarrow> exn + unit" where
  "get_ffmpeg_path ev =
     (if ffmpeg_present ev then Inr () else Inl (FileNotFoundError ''FFmpeg binaries not found!''))"

text \<open>
  \<^verbatim>\<open>get_video_duration\<close>: the call of \<^verbatim>\<open>get_ffmpeg_path\<close> is outside its \<^verbatim>\<open>try\<close>; every
  failure of the probe itself gives \<^verbatim>\<open>None\<close>.
\<close>

definition get_video_duration :: "env \<Rightarrow> path \<Rightarrow> exn + real option" where
  "get_video_duration ev p =
     (case get_ffmpeg_path ev of Inl e \<Rightarrow> Inl e | Inr _ \<Rightarrow> Inr (probe ev p))"

section \<open>The artifact cleanup\<close>

text \<open>
  \<^verbatim>\<open>cleanup_temp_files\<close> walks the listing of the scratch folder taken at its start. A
  deletion that raises is caught inside the loop and reported with \<^verbatim>\<open>print\<close>.
\<close>

fun delete_entries :: "env \<Rightarrow> (string \<times> node) list \<Rightarrow> world \<Rightarrow> world" where
  "delete_entries ev [] w = w"
| "delete_entries ev ((n, v) # es) w =
     delete_entries ev es
       (case v of
          Dangling \<Rightarrow> w
        | _ \<Rightarrow> (if undeletable ev n then act (Print_delete_error n) w
                else fs_remove (Path Cliputils_folder n) w))"

definition cleanup_temp_files :: "env \<Rightarrow> world \<Rightarrow> world" where
  "cleanup_temp_files ev w = delete_entries ev (scratch w) (act Cleanup w)"

section \<open>The trim executor\<close>

fun log_lines :: "string list \<Rightarrow> world \<Rightarrow> world" where
  "log_lines [] w = w"
| "log_lines (line # ls) w = log_lines ls (emit (Log_signal (strip line)) w)"

definition trim_video :: "env \<Rightarrow> job \<Rightarrow> path option \<Rightarrow> world \<Rightarrow> (exn + unit) \<times> world" where
  "trim_video ev j out_opt w =
     (let output = (case out_opt of Some p \<Rightarrow> p | None \<Rightarrow> output_file j)
      in case get_ffmpeg_path ev of
           Inl e \<Rightarrow> (Inl e, w)
         | Inr _ \<Rightarrow>
             (case (end_time j, start_time j) of
                (Some e, Some s) \<Rightarrow>
                  (let command = Trim_copy s (input_file j) (e - s) output;
                       w1 = act (Popen command) w
                   in case engine ev command of
                        Launch_failed \<Rightarrow> (Inl OSError, w1)
                      | Ran lines rc files \<Rightarrow>
                          (let w2 = leave_files files (log_lines lines w1)
                           in if rc \<noteq> 0 then (Inl (RuntimeError ''Trimming failed.''), w2)
                              else (Inr (), w2)))
              | _ \<Rightarrow> (Inl TypeError, w)))"

section \<open>The diagnostic stream reader\<close>

text \<open>
  \<^verbatim>\<open>re.split(r'(bitrate=\d+)', line, maxsplit=1)\<close>: the text before the first match, the
  match and the text after it; \<open>None\<close> when nothing matches.
\<close>

fun split_bitrate :: "string \<Rightarrow> (string \<times> string \<times> string) option" where
  "split_bitrate [] = None"
| "split_bitrate (c # cs) =
     (let r = drop 8 (c # cs)
      in if take 8 (c # cs) = ''bitrate='' \<and> r \<noteq> [] \<and> is_digit (hd r)
         then Some ([], ''bitrate='' @ takeWhile is_digit r, dropWhile is_digit r)
         else map_option (\<lambda>(b, m, a). (c # b, m, a)) (split_bitrate cs))"

definition processed_line :: "string \<Rightarrow> string" where
  "processed_line current_line =
     (if contains ''bitrate='' current_line then
        (case split_bitrate current_line of
           Some (p0, p1, p2) \<Rightarrow> p1 @ p2 @ [CHR 0x0A] @ lstrip p0
         | None \<Rightarrow> current_line)
      else current_line)"

text \<open>\<^verbatim>\<open>s.split()[0]\<close>: the first run of non-blank characters; \<open>None\<close> is the \<^verbatim>\<open>IndexError\<close>.\<close>

definition first_token :: "string \<Rightarrow> string option" where
  "first_token s =
     (let t = takeWhile (\<lambda>c. \<not> is_space c) (dropWhile is_space s)
      in if t = [] then None else Some t)"

text \<open>\<^verbatim>\<open>int(x)\<close> truncates towards zero and raises on the non-finite values.\<close>

definition int_of_float :: "pyfloat \<Rightarrow> exn + int" where
  "int_of_float x =
     (case x of
        Fin r \<Rightarrow> Inr (if 0 \<le> r then \<lfloor>r\<rfloor> else \<lceil>r\<rceil>)
      | NaN \<Rightarrow> Inl (ValueError ''cannot convert float NaN to integer'')
      | _ \<Rightarrow> Inl (OverflowError ''cannot convert float infinity to integer''))"

text \<open>The value \<^verbatim>\<open>progress\<close> of the loop body, computed when \<^verbatim>\<open>duration > 0\<close>.\<close>

definition pass_progress :: "nat \<Rightarrow> pyfloat \<Rightarrow> real \<Rightarrow> pyfloat" where
  "pass_progress pass_number current_time duration =
     (let progress = pf_min (pf_scale (pf_div current_time (duration + 2)) 50) 50
      in if pass_number = 2 then pf_min (pf_add progress (Fin 50)) 100 else progress)"

text \<open>The \<^verbatim>\<open>if "time=" in line\<close> block of the loop body.\<close>

definition track_progress :: "nat \<Rightarrow> real \<Rightarrow> string \<Rightarrow> world \<Rightarrow> (exn + unit) \<times> world" where
  "track_progress pass_number duration line w =
     (if contains ''time='' line then
        (case after_first ''time='' line of
           None \<Rightarrow> (Inl IndexError, w)
         | Some rest \<Rightarrow>
             (case first_token (before_first ''time='' rest) of
                None \<Rightarrow> (Inl IndexError, w)
              | Some time_str \<Rightarrow>
                  (let current_time = parse_time_to_seconds time_str
                   in if 0 < duration then
                        (case int_of_float (pass_progress pass_number current_time duration) of
                           Inl e \<Rightarrow> (Inl e, w)
                         | Inr p \<Rightarrow>
                             (if last_progress w < p
                              then (Inr (), (emit (Progress_signal p) w)\<lparr>last_progress := p\<rparr>)
                              else (Inr (), w)))
                      else (Inr (), w))))
      else (Inr (), w))"

text \<open>\<^verbatim>\<open>log.write(text)\<close> on the log file opened by \<^verbatim>\<open>run_ffmpeg_command\<close>.\<close>

definition log_write :: "string \<Rightarrow> string \<Rightarrow> world \<Rightarrow> world" where
  "log_write name text w =
     (case map_of (scratch w) name of
        Some (File c) \<Rightarrow> w\<lparr>scratch := put_entry name (File (c @ text)) (scratch w)\<rparr>
      | _ \<Rightarrow> w)"

text \<open>The loop \<^verbatim>\<open>for line in process.stderr\<close>; an exception of the body ends it.\<close>

fun read_lines :: "nat \<Rightarrow> real \<Rightarrow> string \<Rightarrow> string list \<Rightarrow> world \<Rightarrow> (exn + unit) \<times> world" where
  "read_lines pass_number duration log_filename [] w = (Inr (), w)"
| "read_lines pass_number duration log_filename (raw # rest) w =
     (let line = strip raw;
          w1 = emit (Log_signal (processed_line line)) w
      in case track_progress pass_number duration line w1 of
           (Inl e, w2) \<Rightarrow> (Inl e, w2)
         | (Inr _, w2) \<Rightarrow>
             read_lines pass_number duration log_filename rest
               (log_write log_filename (strip line @ [CHR 0x0A]) w2))"

section \<open>The two-pass encoder\<close>

text \<open>
  \<^verbatim>\<open>run_ffmpeg_command\<close>. The return code of the process is never read. The files of the
  process appear when it has exited.
\<close>

definition run_ffmpeg_command ::
    "env \<Rightarrow> command \<Rightarrow> string \<Rightarrow> nat \<Rightarrow> real \<Rightarrow> world \<Rightarrow> (exn + unit) \<times> world" where
  "run_ffmpeg_command ev command log_filename pass_number duration w =
     (if open_fails ev log_filename then (Inl OSError, w)
      else
        (let w1 = act (Popen command) (fs_write (Path Cliputils_folder log_filename) (File []) w)
         in case engine ev command of
              Launch_failed \<Rightarrow> (Inl OSError, w1)
            | Ran lines rc files \<Rightarrow>
                (let w2 = (if pass_number = 2 then emit (Progress_signal 50) w1 else w1)
                 in case read_lines pass_number duration log_filename lines w2 of
                      (Inl e, w3) \<Rightarrow> (Inl e, w3)
                    | (Inr _, w3) \<Rightarrow>
                        (let w4 = leave_files files w3
                         in (Inr (),
                             if pass_number = 1
                             then (emit (Progress_signal 50) w4)\<lparr>last_progress := 50\<rparr>
                             else w4)))))"

text \<open>
  \<^verbatim>\<open>compress_video\<close>. \<^verbatim>\<open>target_bitrate or self.target_bitrate\<close> falls back to the attribute
  also when the argument is zero.
\<close>

definition compress_video ::
    "env \<Rightarrow> job \<Rightarrow> path option \<Rightarrow> real option \<Rightarrow> world \<Rightarrow> (exn + unit) \<times> world" where
  "compress_video ev j input_opt bitrate_opt w =
     (let inp = (case input_opt of Some p \<Rightarrow> p | None \<Rightarrow> input_file j);
          tb = (case bitrate_opt of
                  Some b \<Rightarrow> (if b \<noteq> 0 then Some b else target_bitrate j)
                | None \<Rightarrow> target_bitrate j)
      in case get_ffmpeg_path ev of
           Inl e \<Rightarrow> (Inl e, w)
         | Inr _ \<Rightarrow>
             (case get_video_duration ev inp of
                Inl e \<Rightarrow> (Inl e, w)
              | Inr None \<Rightarrow> (Inl (ValueError ''Failed to get video duration.''), w)
              | Inr (Some duration) \<Rightarrow>
                  (case run_ffmpeg_command ev (Encode_pass 1 inp tb None)
                          ''pass1_log.txt'' 1 duration w of
                     (Inl e, w1) \<Rightarrow> (Inl e, w1)
                   | (Inr _, w1) \<Rightarrow>
                       run_ffmpeg_command ev (Encode_pass 2 inp tb (Some (output_file j)))
                         ''pass2_log.txt'' 2 duration w1)))"

section \<open>The bitrate planner\<close>

text \<open>
  Lines 138 to 142 of the source: the duration reported for the trimmed file, the check for
  \<^verbatim>\<open>None\<close>, and the division, which raises when the duration is zero.
\<close>

definition plan_bitrate :: "real \<Rightarrow> real option \<Rightarrow> exn + real" where
  "plan_bitrate tsize duration =
     (case duration of
        None \<Rightarrow> Inl (ValueError ''Failed to get duration of trimmed video.'')
      | Some d \<Rightarrow> (if d = 0 then Inl ZeroDivisionError else Inr ((tsize * 8 * 1024) / d)))"

section \<open>The job controller\<close>

text \<open>\<^verbatim>\<open>shutil.move\<close>, when it succeeds.\<close>

definition fs_move :: "path \<Rightarrow> path \<Rightarrow> world \<Rightarrow> world" where
  "fs_move src dst w =
     (case fs_read w src of
        None \<Rightarrow> w
      | Some v \<Rightarrow> act (Move src dst) (fs_write dst v (fs_remove src w)))"

definition temp_path :: "job \<Rightarrow> path" where
  "temp_path j = Path Cliputils_folder (''temp_'' @ basename (input_file j))"

definition compress_trim_video :: "env \<Rightarrow> job \<Rightarrow> world \<Rightarrow> (exn + unit) \<times> world" where
  "compress_trim_video ev j w =
     (let temp_file = temp_path j;
          w0 = w\<lparr>temp_files := temp_files w @ [temp_file]\<rparr>
      in case trim_video ev j (Some temp_file) w0 of
           (Inl e, w1) \<Rightarrow> (Inl e, w1)
         | (Inr _, w1) \<Rightarrow>
             (case get_file_size w1 temp_file of
                Inl e \<Rightarrow> (Inl e, w1)
              | Inr trimmed_size \<Rightarrow>
                  (case target_size j of
                     None \<Rightarrow> (Inl TypeError, w1)
                   | Some tsize \<Rightarrow>
                       (if trimmed_size \<le> tsize then
                          (case move_error ev of
                             Some msg \<Rightarrow>
                               (Inl (RuntimeError (''Failed to use trimmed video: '' @ msg)), w1)
                           | None \<Rightarrow> (Inr (), fs_move temp_file (output_file j) w1))
                        else
                          (case get_video_duration ev temp_file of
                             Inl e \<Rightarrow> (Inl e, w1)
                           | Inr duration \<Rightarrow>
                               (case plan_bitrate tsize duration of
                                  Inl e \<Rightarrow> (Inl e, w1)
                                | Inr bitrate \<Rightarrow>
                                    compress_video ev j (Some temp_file) (Some bitrate) w1))))))"

definition has_target :: "job \<Rightarrow> bool" where
  "has_target j = (case target_size j of Some s \<Rightarrow> 0 < s | None \<Rightarrow> False)"

definition has_window :: "job \<Rightarrow> bool" where
  "has_window j = (start_time j \<noteq> None \<and> end_time j \<noteq> None)"

text \<open>The \<^verbatim>\<open>try\<close> block of \<^verbatim>\<open>run\<close>: \<open>Inr ()\<close> is \<^verbatim>\<open>success = True\<close>.\<close>

definition pipeline :: "env \<Rightarrow> job \<Rightarrow> world \<Rightarrow> (exn + unit) \<times> world" where
  "pipeline ev j w =
     (if has_target j \<and> has_window j then compress_trim_video ev j w
      else if has_target j then compress_video ev j None None w
      else (case trim_video ev j None w of
              (Inl e, w1) \<Rightarrow> (Inl e, w1)
            | (Inr _, w1) \<Rightarrow> (Inr (), emit (Progress_signal 100) w1)))"

text \<open>
  \<^verbatim>\<open>run\<close>. The exception handler emits the error and then cleans up. The block under
  \<^verbatim>\<open>if success\<close> is outside the \<^verbatim>\<open>try\<close>: an exception of \<^verbatim>\<open>get_file_size\<close> leaves \<^verbatim>\<open>run\<close>,
  which is the first component \<open>Some e\<close> of the result.
\<close>

definition run :: "env \<Rightarrow> job \<Rightarrow> world \<Rightarrow> exn option \<times> world" where
  "run ev j w =
     (case pipeline ev j w of
        (Inl e, w1) \<Rightarrow> (None, cleanup_temp_files ev (emit (Error_signal e) w1))
      | (Inr _, w1) \<Rightarrow>
          (case get_file_size w1 (output_file j) of
             Inl e \<Rightarrow> (Some e, w1)
           | Inr new_size \<Rightarrow>
               (None,
                cleanup_temp_files ev
                  (emit (Done_signal (output_file j) (py_round1 (elapsed ev)) new_size) w1))))"

section \<open>Notions used by the properties\<close>

text \<open>
  The names whose deletion \<^verbatim>\<open>cleanup_temp_files\<close> carries out, and the messages it prints for
  the entries whose deletion raises.
\<close>

definition doomed :: "env \<Rightarrow> (string \<times> node) list \<Rightarrow> string set" where
  "doomed ev es = {n. \<exists>v. (n, v) \<in> set es \<and> v \<noteq> Dangling \<and> \<not> undeletable ev n}"

fun delete_errors :: "env \<Rightarrow> (string \<times> node) list \<Rightarrow> action list" where
  "delete_errors ev [] = []"
| "delete_errors ev ((n, v) # es) =
     (if v \<noteq> Dangling \<and> undeletable ev n then Print_delete_error n # delete_errors ev es
      else delete_errors ev es)"

text \<open>A scratch folder with a registered file, unregistered entries and a locked file.\<close>

definition scratch_mixed :: "(string \<times> node) list" where
  "scratch_mixed = [(''temp_clip.mp4'', File ''abc''), (''notes.txt'', File ''kept by nobody''),
                  (''locked.bin'', File ''x''), (''old'', Dir), (''pass1_log.txt'', File [])]"

definition env_locked :: env where
  "env_locked = \<lparr>ffmpeg_present = True, engine = (\<lambda>c. Launch_failed), probe = (\<lambda>p. None),
     open_fails = (\<lambda>n. False), move_error = None,
     undeletable = (\<lambda>n. n = ''locked.bin''), elapsed = 0\<rparr>"

text \<open>Four jobs on one input: size only, window only, both, and neither.\<close>

definition in_clip :: path where
  "in_clip = Path (Other_folder ''Downloads'') ''clip.mp4''"

definition out_clip :: path where
  "out_clip = Path (Other_folder ''Videos/ClipUtils'') ''clip_ClipUtils.mp4''"

definition job_size :: job where
  "job_size = \<lparr>input_file = in_clip, output_file = out_clip, target_size = Some 10,
     target_bitrate = Some (10 * 8 * 1024 / 120), start_time = None, end_time = None\<rparr>"

definition job_trim :: job where
  "job_trim = \<lparr>input_file = in_clip, output_file = out_clip, target_size = None,
     target_bitrate = None, start_time = Some 10, end_time = Some 40\<rparr>"

definition job_both :: job where
  "job_both = \<lparr>input_file = in_clip, output_file = out_clip, target_size = Some 10,
     target_bitrate = Some (10 * 8 * 1024 / 30), start_time = Some 10, end_time = Some 40\<rparr>"

definition job_neither :: job where
  "job_neither = \<lparr>input_file = in_clip, output_file = out_clip, target_size = None,
     target_bitrate = None, start_time = None, end_time = None\<rparr>"

definition no_files :: "string \<times> string \<Rightarrow> node option" where
  "no_files = (\<lambda>k. None)"

subsection \<open>Reading a trace\<close>

text \<open>
  The terminal events, the calls of the engine, the progress values in the order of their
  emission, and the trace without its log lines.
\<close>

fun is_terminal :: "action \<Rightarrow> bool" where
  "is_terminal (Emit (Done_signal p t s)) = True"
| "is_terminal (Emit (Error_signal e)) = True"
| "is_terminal a = False"

fun is_popen :: "action \<Rightarrow> bool" where
  "is_popen (Popen c) = True"
| "is_popen a = False"


fun progress_values :: "action list \<Rightarrow> int list" where
  "progress_values [] = []"
| "progress_values (Emit (Progress_signal p) # tr) = p # progress_values tr"
| "progress_values (a # tr) = progress_values tr"

fun quiet :: "action list \<Rightarrow> action list" where
  "quiet [] = []"
| "quiet (Emit (Log_signal l) # tr) = quiet tr"
| "quiet (a # tr) = a # quiet tr"

definition progress_acts :: "int list \<Rightarrow> action list" where
  "progress_acts ps = map (\<lambda>p. Emit (Progress_signal p)) ps"

text \<open>Values that rise strictly from above \<open>lo\<close> and stay at or below \<open>hi\<close>.\<close>

definition rising :: "int \<Rightarrow> int list \<Rightarrow> int \<Rightarrow> bool" where
  "rising lo ps hi = (sorted_wrt (<) (lo # ps) \<and> (\<forall>p\<in>set ps. p \<le> hi))"

text \<open>The largest value a pass can emit from a parsed time.\<close>

definition cap :: "nat \<Rightarrow> int" where
  "cap pass_number = (if pass_number = 2 then 100 else 50)"

text \<open>The lines of a diagnostic stream that enter the \<^verbatim>\<open>"time=" in line\<close> block.\<close>

definition time_lines :: "string list \<Rightarrow> string list" where
  "time_lines ls = filter (contains ''time='') (map strip ls)"

text \<open>
  How far the two-pass encoder got, and what it has then added to the trace, log lines
  aside: the call of pass 1 and its parsed values \<open>ps1\<close>, the 50 at the exit of pass 1, the
  call of pass 2, the 50 at its start, and its parsed values \<open>ps2\<close>.
\<close>

datatype stage = Before_pass1 | During_pass1 | After_pass1 | Launching_pass2 | During_pass2

fun two_pass_body :: "stage \<Rightarrow> command \<Rightarrow> int list \<Rightarrow> command \<Rightarrow> int list \<Rightarrow> action list" where
  "two_pass_body Before_pass1 c1 ps1 c2 ps2 = []"
| "two_pass_body During_pass1 c1 ps1 c2 ps2 = Popen c1 # progress_acts ps1"
| "two_pass_body After_pass1 c1 ps1 c2 ps2 =
     Popen c1 # progress_acts ps1 @ [Emit (Progress_signal 50)]"
| "two_pass_body Launching_pass2 c1 ps1 c2 ps2 =
     Popen c1 # progress_acts ps1 @ [Emit (Progress_signal 50), Popen c2]"
| "two_pass_body During_pass2 c1 ps1 c2 ps2 =
     Popen c1 # progress_acts ps1
       @ [Emit (Progress_signal 50), Popen c2, Emit (Progress_signal 50)] @ progress_acts ps2"

text \<open>The actions of the trim step: calls of the trim command and the move.\<close>

fun is_trim_step :: "action \<Rightarrow> bool" where
  "is_trim_step (Popen (Trim_copy s i t out)) = True"
| "is_trim_step (Move src dst) = True"
| "is_trim_step a = False"

fun is_move :: "action \<Rightarrow> bool" where
  "is_move (Move src dst) = True"
| "is_move a = False"

text \<open>
  A well-behaved engine: the trim leaves the trimmed file at its output path, pass 1 prints
  one status line at 61 seconds and leaves its statistics in the scratch folder, pass 2
  prints one status line at 61 seconds and leaves the encoded file. \<open>env_good\<close> answers 120
  seconds for every duration, so that 61 seconds is a quarter of the scale in each pass.
\<close>

definition good_engine :: "command \<Rightarrow> proc" where
  "good_engine c =
     (case c of
        Trim_copy s i t out \<Rightarrow> Ran [''Output #0, mp4''] 0 [(out, ''trimmed'')]
      | Encode_pass n i b out \<Rightarrow>
          (case out of
             None \<Rightarrow> Ran [''size=N/A time=00:01:01.00 bitrate=N/A'']
                       0 [(Path Cliputils_folder ''ffmpeg2pass-0.log'', ''stats'')]
           | Some p \<Rightarrow> Ran [''size=5kB time=00:01:01.00 bitrate=687.5kbits/s'']
                       0 [(p, ''encoded'')]))"

definition env_good :: env where
  "env_good = \<lparr>ffmpeg_present = True, engine = good_engine, probe = (\<lambda>p. Some 120),
     open_fails = (\<lambda>n. False), move_error = None, undeletable = (\<lambda>n. False), elapsed = 7\<rparr>"

text \<open>The same engine with every process exiting with return code 1.\<close>

definition failing_engine :: "command \<Rightarrow> proc" where
  "failing_engine c = (case good_engine c of Ran ls rc fs \<Rightarrow> Ran ls 1 fs | Launch_failed \<Rightarrow> Launch_failed)"

definition env_exit1 :: env where
  "env_exit1 = env_good\<lparr>engine := failing_engine\<rparr>"

text \<open>An engine whose processes print nothing, leave nothing and exit with return code 1.\<close>

definition env_broken :: env where
  "env_broken = env_good\<lparr>engine := (\<lambda>c. Ran [] 1 [])\<rparr>"

text \<open>
  Whether every terminal event of a trace comes after a cleanup, and the return code of a
  process that ran.
\<close>

fun cleaned_first :: "action list \<Rightarrow> bool" where
  "cleaned_first [] = True"
| "cleaned_first (a # tr) = (if a = Cleanup then True else \<not> is_terminal a \<and> cleaned_first tr)"

fun exit_code :: "proc \<Rightarrow> int option" where
  "exit_code Launch_failed = None"
| "exit_code (Ran ls rc fs) = Some rc"

text \<open>
  An environment whose trim leaves a file of 11000000 bytes, and one where the probe answers
  59 seconds, so that the status line at 61 seconds is the end of the scale.
\<close>

definition env_big :: env where
  "env_big = env_good\<lparr>engine := (\<lambda>c. case c of
       Trim_copy s i t out \<Rightarrow> Ran [] 0 [(out, replicate 11000000 CHR ''x'')]
     | Encode_pass n i b out \<Rightarrow> good_engine c)\<rparr>"

definition env_late :: env where
  "env_late = env_good\<lparr>probe := (\<lambda>p. Some 59)\<rparr>"

section \<open>Verified properties\<close>

subsection \<open>The time parser\<close>

lemmas float_eval = parse_time_to_seconds_def float_of_string_def sign_of_def strip_def
  float_strip_def is_float_space_def is_space_def number_def digitpart_def is_digit_def digit_val_def exponent_def pow10_def
  fraction_def nat_of_digits_def replace_char_def lower_char_def

lemma float_parts_None:
  "float_parts ps = None \<longleftrightarrow> (\<exists>p\<in>set ps. float_of_string p = None)"
  by (induction ps) (auto split: option.splits)

lemma float_parts_Some:
  "float_parts ps = Some xs \<Longrightarrow> map float_of_string ps = map Some xs"
  by (induction ps arbitrary: xs) (auto split: option.splits)

lemma float_parts_all:
  "\<forall>p\<in>set ps. float_of_string p \<noteq> None \<Longrightarrow>
   \<exists>xs. float_parts ps = Some xs \<and> map float_of_string ps = map Some xs"
  using float_parts_None float_parts_Some by (cases "float_parts ps") auto

text \<open>
  C8, as the code has it. With \<open>parts\<close> the pieces of the token between colons, after every
  comma has become a full stop: when some piece is not a float literal the result is 0 and
  no error; otherwise three pieces are hours, minutes and seconds, two pieces are minutes and
  seconds, one piece is seconds, and with four or more pieces the result is the first piece
  alone. The four tokens of the specification map to 3723.5, 135, 42 and 0.
\<close>

theorem parse_time_rule:
  assumes parts: "parts = split_char CHR '':'' (replace_char CHR '','' CHR ''.'' time_str)"
  shows "((\<exists>p\<in>set parts. float_of_string p = None) \<longrightarrow> parse_time_to_seconds time_str = Fin 0)
    \<and> (\<forall>a b c h m s. parts = [a, b, c] \<and> float_of_string a = Some h
          \<and> float_of_string b = Some m \<and> float_of_string c = Some s
        \<longrightarrow> parse_time_to_seconds time_str
            = pf_add (pf_add (pf_scale h 3600) (pf_scale m 60)) s)
    \<and> (\<forall>a b m s. parts = [a, b] \<and> float_of_string a = Some m \<and> float_of_string b = Some s
        \<longrightarrow> parse_time_to_seconds time_str = pf_add (pf_scale m 60) s)
    \<and> (\<forall>a s. parts = [a] \<and> float_of_string a = Some s \<longrightarrow> parse_time_to_seconds time_str = s)
    \<and> (4 \<le> length parts \<and> (\<forall>p\<in>set parts. float_of_string p \<noteq> None)
        \<longrightarrow> float_of_string (hd parts) = Some (parse_time_to_seconds time_str))
    \<and> parse_time_to_seconds ''01:02:03.50'' = Fin 3723.5
    \<and> parse_time_to_seconds ''02:15'' = Fin 135
    \<and> parse_time_to_seconds ''42'' = Fin 42
    \<and> parse_time_to_seconds ''bad'' = Fin 0"
proof (intro conjI impI allI)
  assume "\<exists>p\<in>set parts. float_of_string p = None"
  then have "float_parts parts = None" by (simp add: float_parts_None)
  then show "parse_time_to_seconds time_str = Fin 0"
    by (simp add: parse_time_to_seconds_def parts)
next
  fix a b c h m s
  assume "parts = [a, b, c] \<and> float_of_string a = Some h \<and> float_of_string b = Some m
          \<and> float_of_string c = Some s"
  then have "float_parts parts = Some [h, m, s]" by simp
  then show "parse_time_to_seconds time_str = pf_add (pf_add (pf_scale h 3600) (pf_scale m 60)) s"
    by (simp add: parse_time_to_seconds_def parts)
next
  fix a b m s
  assume "parts = [a, b] \<and> float_of_string a = Some m \<and> float_of_string b = Some s"
  then have "float_parts parts = Some [m, s]" by simp
  then show "parse_time_to_seconds time_str = pf_add (pf_scale m 60) s"
    by (simp add: parse_time_to_seconds_def parts)
next
  fix a s
  assume "parts = [a] \<and> float_of_string a = Some s"
  then have "float_parts parts = Some [s]" by simp
  then show "parse_time_to_seconds time_str = s"
    by (simp add: parse_time_to_seconds_def parts)
next
  assume h: "4 \<le> length parts \<and> (\<forall>p\<in>set parts. float_of_string p \<noteq> None)"
  then obtain xs where xs: "float_parts parts = Some xs" "map float_of_string parts = map Some xs"
    using float_parts_all by blast
  then have len: "length xs = length parts" by (metis length_map)
  with h obtain x xs' where x: "xs = x # xs'" by (cases xs) auto
  from h obtain p ps' where p: "parts = p # ps'" by (cases parts) auto
  from xs(2) x p have "float_of_string p = Some x" by simp
  moreover have "parse_time_to_seconds time_str = x"
    using xs(1) x len h by (simp add: parse_time_to_seconds_def parts[symmetric])
  ultimately show "float_of_string (hd parts) = Some (parse_time_to_seconds time_str)"
    using p by simp
next
  show "parse_time_to_seconds ''01:02:03.50'' = Fin 3723.5" by (simp add: float_eval)
next
  show "parse_time_to_seconds ''02:15'' = Fin 135" by (simp add: float_eval)
next
  show "parse_time_to_seconds ''42'' = Fin 42" by (simp add: float_eval)
next
  show "parse_time_to_seconds ''bad'' = Fin 0" by (simp add: float_eval)
qed

theorem parse_time_rule_witness:
  "parse_time_to_seconds ''x:7'' = Fin 0
   \<and> parse_time_to_seconds ''1:00:01,5'' = Fin 3601.5
   \<and> parse_time_to_seconds ''03:20'' = Fin 200
   \<and> parse_time_to_seconds ''7.25'' = Fin 7.25
   \<and> float_of_string ''1'' = Some (parse_time_to_seconds ''1:2:3:4'')"
proof -
  have bad: "\<exists>p\<in>set (split_char CHR '':'' (replace_char CHR '','' CHR ''.'' ''x:7'')).
               float_of_string p = None"
    by (simp add: float_eval)
  have hms: "split_char CHR '':'' (replace_char CHR '','' CHR ''.'' ''1:00:01,5'')
        = [''1'', ''00'', ''01.5'']
      \<and> float_of_string ''1'' = Some (Fin 1) \<and> float_of_string ''00'' = Some (Fin 0)
      \<and> float_of_string ''01.5'' = Some (Fin 1.5)"
    by (simp add: float_eval)
  have ms: "split_char CHR '':'' (replace_char CHR '','' CHR ''.'' ''03:20'') = [''03'', ''20'']
      \<and> float_of_string ''03'' = Some (Fin 3) \<and> float_of_string ''20'' = Some (Fin 20)"
    by (simp add: float_eval)
  have s: "split_char CHR '':'' (replace_char CHR '','' CHR ''.'' ''7.25'') = [''7.25'']
      \<and> float_of_string ''7.25'' = Some (Fin 7.25)"
    by (simp add: float_eval)
  have four: "4 \<le> length (split_char CHR '':'' (replace_char CHR '','' CHR ''.'' ''1:2:3:4''))
      \<and> (\<forall>p\<in>set (split_char CHR '':'' (replace_char CHR '','' CHR ''.'' ''1:2:3:4'')).
            float_of_string p \<noteq> None)
      \<and> hd (split_char CHR '':'' (replace_char CHR '','' CHR ''.'' ''1:2:3:4'')) = ''1''"
    by (simp add: float_eval)
  show ?thesis
    using parse_time_rule [OF refl, of "''x:7''"] bad
      parse_time_rule [OF refl, of "''1:00:01,5''"] hms
      parse_time_rule [OF refl, of "''03:20''"] ms
      parse_time_rule [OF refl, of "''7.25''"] s
      parse_time_rule [OF refl, of "''1:2:3:4''"] four
    by simp
qed

text \<open>
  C8 as stated fails on a token that is none of the three shapes: \<^verbatim>\<open>"1:2:3:4"\<close> has four
  numeric pieces, and the last branch returns the first of them, 1, not 0.
\<close>

theorem parse_time_four_parts_counterexample:
  "length (split_char CHR '':'' (replace_char CHR '','' CHR ''.'' ''1:2:3:4'')) = 4
   \<and> parse_time_to_seconds ''1:2:3:4'' = Fin 1 \<and> parse_time_to_seconds ''1:2:3:4'' \<noteq> Fin 0"
  by (simp add: float_eval)

subsection \<open>The artifact cleanup\<close>

lemma doomed_Nil: "doomed ev [] = {}" by (simp add: doomed_def)

lemma doomed_Cons:
  "doomed ev ((n, v) # es)
   = (if v \<noteq> Dangling \<and> \<not> undeletable ev n then {n} else {}) \<union> doomed ev es"
  by (auto simp: doomed_def)

lemma delete_entries_closed:
  "delete_entries ev es w
   = w\<lparr>scratch := filter (\<lambda>e. fst e \<notin> doomed ev es) (scratch w),
       trace := trace w @ delete_errors ev es\<rparr>"
proof (induction es arbitrary: w)
  case Nil
  then show ?case by (simp add: doomed_Nil)
next
  case (Cons a es)
  obtain n v where a: "a = (n, v)" by (cases a)
  have f: "filter (\<lambda>e. fst e \<notin> doomed ev es) (filter (\<lambda>e. fst e \<noteq> n) xs)
           = filter (\<lambda>e. fst e \<noteq> n \<and> fst e \<notin> doomed ev es) xs" for xs
    by (induction xs) auto
  show ?case
    unfolding a
    by (cases v) (simp_all add: Cons.IH doomed_Cons act_def fs_remove_def f)
qed

lemma cleanup_closed:
  "cleanup_temp_files ev w
   = w\<lparr>scratch := filter (\<lambda>e. fst e \<notin> doomed ev (scratch w)) (scratch w),
       trace := trace w @ Cleanup # delete_errors ev (scratch w)\<rparr>"
  by (simp add: cleanup_temp_files_def delete_entries_closed act_def)

text \<open>
  C10. \<^verbatim>\<open>cleanup_temp_files\<close> removes from the scratch folder every file and every directory
  of its listing whose deletion does not raise, whether or not the path was appended to
  \<^verbatim>\<open>temp_files\<close>: the result does not depend on that list. A deletion that raises is caught
  for that entry alone (one printed message each) and the later entries are still deleted;
  with distinct names, what remains is exactly the entries that could not be deleted and
  those that are neither file nor directory. Files outside the scratch folder are untouched.
\<close>

theorem cleanup_deletes_listing:
  "(\<forall>n v. (n, v) \<in> set (scratch w) \<and> v \<noteq> Dangling \<and> \<not> undeletable ev n
       \<longrightarrow> n \<notin> fst ` set (scratch (cleanup_temp_files ev w)))
   \<and> (distinct (map fst (scratch w))
       \<longrightarrow> scratch (cleanup_temp_files ev w)
           = filter (\<lambda>e. snd e = Dangling \<or> undeletable ev (fst e)) (scratch w))
   \<and> cleanup_temp_files ev (w\<lparr>temp_files := tf\<rparr>) = (cleanup_temp_files ev w)\<lparr>temp_files := tf\<rparr>
   \<and> trace (cleanup_temp_files ev w) = trace w @ Cleanup # delete_errors ev (scratch w)
   \<and> elsewhere (cleanup_temp_files ev w) = elsewhere w"
proof (intro conjI allI impI)
  fix n v
  assume "(n, v) \<in> set (scratch w) \<and> v \<noteq> Dangling \<and> \<not> undeletable ev n"
  then have "n \<in> doomed ev (scratch w)" by (auto simp: doomed_def)
  then show "n \<notin> fst ` set (scratch (cleanup_temp_files ev w))"
    by (auto simp: cleanup_closed)
next
  assume d: "distinct (map fst (scratch w))"
  have "(fst e \<notin> doomed ev (scratch w)) = (snd e = Dangling \<or> undeletable ev (fst e))"
    if e: "e \<in> set (scratch w)" for e
  proof -
    obtain n v where nv: "e = (n, v)" by (cases e)
    have u: "\<forall>v'. (n, v') \<in> set (scratch w) \<longrightarrow> v' = v"
      using d e unfolding nv by (blast dest: eq_key_imp_eq_value)
    have "(n \<in> doomed ev (scratch w)) = (v \<noteq> Dangling \<and> \<not> undeletable ev n)"
      unfolding doomed_def using u e nv by blast
    then show ?thesis
      by (simp add: nv)
  qed
  then have "filter (\<lambda>e. fst e \<notin> doomed ev (scratch w)) (scratch w)
           = filter (\<lambda>e. snd e = Dangling \<or> undeletable ev (fst e)) (scratch w)"
    by (rule filter_cong [OF refl])
  then show "scratch (cleanup_temp_files ev w)
           = filter (\<lambda>e. snd e = Dangling \<or> undeletable ev (fst e)) (scratch w)"
    by (simp add: cleanup_closed)
next
  show "cleanup_temp_files ev (w\<lparr>temp_files := tf\<rparr>) = (cleanup_temp_files ev w)\<lparr>temp_files := tf\<rparr>"
    by (simp add: cleanup_closed)
next
  show "trace (cleanup_temp_files ev w) = trace w @ Cleanup # delete_errors ev (scratch w)"
    by (simp add: cleanup_closed)
next
  show "elsewhere (cleanup_temp_files ev w) = elsewhere w"
    by (simp add: cleanup_closed)
qed

theorem cleanup_deletes_listing_witness:
  "distinct (map fst scratch_mixed)
   \<and> scratch (cleanup_temp_files env_locked (init_world scratch_mixed no_files))
     = [(''locked.bin'', File ''x'')]
   \<and> trace (cleanup_temp_files env_locked (init_world scratch_mixed no_files))
     = [Cleanup, Print_delete_error ''locked.bin'']
   \<and> ''notes.txt'' \<notin> fst ` set (scratch (cleanup_temp_files env_locked (init_world scratch_mixed no_files)))"
  using cleanup_deletes_listing [of "init_world scratch_mixed no_files" env_locked "[]"]
  by (simp add: scratch_mixed_def env_locked_def init_world_def)

subsection \<open>The bitrate planner\<close>

text \<open>
  C6, as the code has it. For every size and every duration other than zero the bitrate is
  \<open>s * 8 * 1024 / d\<close>; for a positive size and duration it is positive and gives the size
  back when multiplied by the duration, and two sizes never share a bitrate at one duration,
  so nothing is clamped. An absent duration raises the \<^verbatim>\<open>ValueError\<close> of the planner, and
  \<^verbatim>\<open>compress_video\<close> raises its own when the probe reports none. A duration of zero raises
  \<^verbatim>\<open>ZeroDivisionError\<close> instead.
\<close>

theorem plan_bitrate_formula:
  "(d \<noteq> 0 \<longrightarrow> plan_bitrate s (Some d) = Inr (s * 8 * 1024 / d))
   \<and> (0 < s \<and> 0 < d \<longrightarrow> (\<exists>b. plan_bitrate s (Some d) = Inr b \<and> 0 < b \<and> b * d = s * 8 * 1024))
   \<and> (d \<noteq> 0 \<and> plan_bitrate s (Some d) = plan_bitrate s' (Some d) \<longrightarrow> s = s')
   \<and> plan_bitrate s None = Inl (ValueError ''Failed to get duration of trimmed video.'')
   \<and> plan_bitrate s (Some 0) = Inl ZeroDivisionError
   \<and> (ffmpeg_present ev \<and> probe ev inp = None
       \<longrightarrow> compress_video ev j (Some inp) b w
           = (Inl (ValueError ''Failed to get video duration.''), w))"
proof (intro conjI impI)
  show "plan_bitrate s (Some d) = Inr (s * 8 * 1024 / d)" if "d \<noteq> 0"
    using that by (simp add: plan_bitrate_def)
  show "\<exists>b. plan_bitrate s (Some d) = Inr b \<and> 0 < b \<and> b * d = s * 8 * 1024" if "0 < s \<and> 0 < d"
    using that by (intro exI [of _ "s * 8 * 1024 / d"]) (simp add: plan_bitrate_def)
  show "s = s'" if "d \<noteq> 0 \<and> plan_bitrate s (Some d) = plan_bitrate s' (Some d)"
    using that by (auto simp: plan_bitrate_def)
  show "plan_bitrate s None = Inl (ValueError ''Failed to get duration of trimmed video.'')"
    by (simp add: plan_bitrate_def)
  show "plan_bitrate s (Some 0) = Inl ZeroDivisionError"
    by (simp add: plan_bitrate_def)
  show "compress_video ev j (Some inp) b w = (Inl (ValueError ''Failed to get video duration.''), w)"
    if "ffmpeg_present ev \<and> probe ev inp = None"
    using that by (simp add: compress_video_def get_ffmpeg_path_def get_video_duration_def)
qed

theorem plan_bitrate_formula_witness:
  "(120::real) \<noteq> 0 \<and> plan_bitrate 10 (Some 120) = Inr (10 * 8 * 1024 / 120)
   \<and> plan_bitrate 10 (Some 120) \<noteq> plan_bitrate 20 (Some 120)
   \<and> ffmpeg_present env_locked \<and> probe env_locked in_clip = None
   \<and> compress_video env_locked job_size (Some in_clip) None (init_world [] no_files)
       = (Inl (ValueError ''Failed to get video duration.''), init_world [] no_files)"
  using plan_bitrate_formula
          [of 120 10 20 env_locked in_clip job_size None "init_world [] no_files"]
  by (auto simp add: env_locked_def)

text \<open>
  C6 as stated fails for a duration that is not greater than zero: for \<open>d = -1\<close> nothing
  is raised and the bitrate is negative.
\<close>

theorem plan_bitrate_negative_counterexample:
  "plan_bitrate 10 (Some (- 1)) = Inr (- 81920)"
  by (simp add: plan_bitrate_def)

subsection \<open>What each step adds to the trace\<close>

lemma quiet_append: "quiet (xs @ ys) = quiet xs @ quiet ys"
  by (induction xs rule: quiet.induct) simp_all

lemma progress_values_append: "progress_values (xs @ ys) = progress_values xs @ progress_values ys"
  by (induction xs rule: progress_values.induct) simp_all

lemma progress_values_quiet: "progress_values (quiet tr) = progress_values tr"
  by (induction tr rule: quiet.induct) simp_all

lemma quiet_progress_acts: "quiet (progress_acts ps) = progress_acts ps"
  by (induction ps) (simp_all add: progress_acts_def)

lemma progress_values_acts: "progress_values (progress_acts ps) = ps"
  by (induction ps) (simp_all add: progress_acts_def)

lemma frame_fs_write: "trace (fs_write p v w) = trace w" "last_progress (fs_write p v w) = last_progress w"
  by (simp_all add: fs_write_def split: folder.splits)

lemma frame_fs_remove: "trace (fs_remove p w) = trace w" "last_progress (fs_remove p w) = last_progress w"
  by (simp_all add: fs_remove_def split: folder.splits)

lemma frame_leave_files: "trace (leave_files fs w) = trace w \<and> last_progress (leave_files fs w) = last_progress w"
  by (induction fs w rule: leave_files.induct) (simp_all add: frame_fs_write)

lemma frame_log_write: "trace (log_write n t w) = trace w" "last_progress (log_write n t w) = last_progress w"
  by (simp_all add: log_write_def split: option.splits node.splits)

lemma frame_act: "trace (act a w) = trace w @ [a]" "last_progress (act a w) = last_progress w"
  by (simp_all add: act_def)

lemma frame_emit: "trace (emit s w) = trace w @ [Emit s]" "last_progress (emit s w) = last_progress w"
  by (simp_all add: emit_def act_def)

lemma frame_log_lines:
  "quiet (trace (log_lines ls w)) = quiet (trace w) \<and> last_progress (log_lines ls w) = last_progress w"
  by (induction ls w rule: log_lines.induct) (simp_all add: frame_emit quiet_append)

lemmas frame = frame_fs_write frame_fs_remove frame_leave_files frame_log_write frame_act
  frame_emit frame_log_lines

lemma int_of_float_cap:
  assumes "int_of_float (pass_progress pn ct d) = Inr p"
  shows "p \<le> cap pn"
proof -
  have a: "int_of_float (pf_min x 50) = Inr q \<Longrightarrow> q \<le> 50" for x q
    by (cases x) (auto simp: int_of_float_def split: if_splits; linarith)+
  have b: "int_of_float (pf_min (pf_add (pf_min x 50) (Fin 50)) 100) = Inr q \<Longrightarrow> q \<le> 100" for x q
    by (cases x) (auto simp: int_of_float_def split: if_splits; linarith)+
  show ?thesis
    using assms a b by (auto simp: pass_progress_def cap_def Let_def split: if_splits)
qed

lemma track_progress_cases:
  assumes "track_progress pn d line w = (r, w')"
  shows "(trace w' = trace w \<and> last_progress w' = last_progress w)
       \<or> (\<exists>p. contains ''time='' line \<and> r = Inr () \<and> trace w' = trace w @ [Emit (Progress_signal p)]
              \<and> last_progress w' = p \<and> last_progress w < p \<and> p \<le> cap pn)"
  using assms int_of_float_cap
  by (auto simp: track_progress_def Let_def frame split: if_splits option.splits sum.splits)


lemma progress_acts_simps:
  "progress_acts [] = []" "progress_acts (p # ps) = Emit (Progress_signal p) # progress_acts ps"
  "progress_acts (ps @ qs) = progress_acts ps @ progress_acts qs"
  by (simp_all add: progress_acts_def)

lemma rising_Nil: "rising lo [] hi" by (simp add: rising_def)

lemma rising_Cons: "rising lo (p # ps) hi \<longleftrightarrow> lo < p \<and> p \<le> hi \<and> rising p ps hi"
  by (auto simp: rising_def)

lemma time_lines_Cons:
  "time_lines (l # ls) = (if contains ''time='' (strip l) then strip l # time_lines ls else time_lines ls)"
  by (simp add: time_lines_def)

lemma read_lines_shape:
  "read_lines pn d nm ls w = (r, w') \<Longrightarrow>
   \<exists>ps. quiet (trace w') = quiet (trace w) @ progress_acts ps
      \<and> rising (last_progress w) ps (cap pn)
      \<and> last_progress w' = last (last_progress w # ps)
      \<and> length ps \<le> length (time_lines ls)"
proof (induction ls arbitrary: w)
  case Nil
  then show ?case by (auto simp: rising_Nil progress_acts_def intro: exI [of _ "[]"])
next
  case (Cons raw rest)
  define w1 where "w1 = emit (Log_signal (processed_line (strip raw))) w"
  obtain r2 w2 where t: "track_progress pn d (strip raw) w1 = (r2, w2)"
    by (cases "track_progress pn d (strip raw) w1")
  have q1: "quiet (trace w1) = quiet (trace w)" and l1: "last_progress w1 = last_progress w"
    by (simp_all add: w1_def frame quiet_append)
  from track_progress_cases [OF t]
  obtain qs where qs: "quiet (trace w2) = quiet (trace w) @ progress_acts qs"
      "rising (last_progress w) qs (cap pn)" "last_progress w2 = last (last_progress w # qs)"
      "length qs \<le> (if contains ''time='' (strip raw) then 1 else 0)"
      "qs = [] \<or> r2 = Inr ()"
  proof (elim disjE exE conjE)
    assume "trace w2 = trace w1" "last_progress w2 = last_progress w1"
    then show ?thesis
      using q1 l1 by (intro that [of "[]"]) (simp_all add: rising_Nil progress_acts_def)
  next
    fix p
    assume "contains ''time='' (strip raw)" "r2 = Inr ()"
      "trace w2 = trace w1 @ [Emit (Progress_signal p)]" "last_progress w2 = p"
      "last_progress w1 < p" "p \<le> cap pn"
    then show ?thesis
      using q1 l1
      by (intro that [of "[p]"]) (simp_all add: rising_Cons rising_Nil progress_acts_def quiet_append)
  qed
  show ?case
  proof (cases r2)
    case (Inl e)
    then have "w' = w2" using Cons.prems t by (simp add: w1_def Let_def)
    moreover have "qs = []" using qs(5) Inl by simp
    ultimately show ?thesis
      using qs by (intro exI [of _ "[]"]) simp
  next
    case (Inr u)
    define w3 where "w3 = log_write nm (strip (strip raw) @ [CHR 0x0A]) w2"
    have rec: "read_lines pn d nm rest w3 = (r, w')"
      using Cons.prems t Inr by (simp add: w1_def w3_def Let_def)
    from Cons.IH [OF rec] obtain ps where ps:
      "quiet (trace w') = quiet (trace w3) @ progress_acts ps"
      "rising (last_progress w3) ps (cap pn)"
      "last_progress w' = last (last_progress w3 # ps)"
      "length ps \<le> length (time_lines rest)"
      by blast
    have w3: "trace w3 = trace w2" "last_progress w3 = last_progress w2"
      by (simp_all add: w3_def frame)
    have len: "length qs \<le> 1" using qs(4) by (simp split: if_splits)
    show ?thesis
    proof (cases qs)
      case Nil
      then show ?thesis
        using ps qs w3 by (intro exI [of _ ps]) (simp add: time_lines_Cons progress_acts_simps)
    next
      case (Cons q qs')
      then have qs': "qs = [q]" using len by simp
      then have "contains ''time='' (strip raw)" using qs(4) by (simp split: if_splits)
      then show ?thesis
        using ps qs w3 unfolding qs'
        by (intro exI [of _ "q # ps"])
           (simp add: time_lines_Cons rising_Cons rising_Nil progress_acts_simps)
    qed
  qed
qed


lemma run_ffmpeg_command_shape:
  assumes "run_ffmpeg_command ev c nm pn d w = (r, w')"
  shows "(r \<noteq> Inr () \<and> quiet (trace w') = quiet (trace w) \<and> last_progress w' = last_progress w)
    \<or> (r \<noteq> Inr () \<and> engine ev c = Launch_failed \<and> quiet (trace w') = quiet (trace w) @ [Popen c]
        \<and> last_progress w' = last_progress w)
    \<or> (\<exists>ls rc fs ps. engine ev c = Ran ls rc fs
        \<and> quiet (trace w') = quiet (trace w) @ Popen c
             # (if pn = 2 then [Emit (Progress_signal 50)] else []) @ progress_acts ps
             @ (if pn = 1 \<and> r = Inr () then [Emit (Progress_signal 50)] else [])
        \<and> rising (last_progress w) ps (cap pn) \<and> length ps \<le> length (time_lines ls)
        \<and> last_progress w' = (if pn = 1 \<and> r = Inr () then 50 else last (last_progress w # ps)))"
proof (cases "open_fails ev nm")
  case True
  then show ?thesis using assms by (auto simp: run_ffmpeg_command_def)
next
  case False
  define w1 where "w1 = act (Popen c) (fs_write (Path Cliputils_folder nm) (File []) w)"
  have w1: "quiet (trace w1) = quiet (trace w) @ [Popen c]" "last_progress w1 = last_progress w"
    by (simp_all add: w1_def frame quiet_append)
  show ?thesis
  proof (cases "engine ev c")
    case Launch_failed
    then show ?thesis
      using assms False w1 by (auto simp: run_ffmpeg_command_def w1_def [symmetric] Let_def)
  next
    case (Ran ls rc fs)
    define w2 where "w2 = (if pn = 2 then emit (Progress_signal 50) w1 else w1)"
    have w2: "quiet (trace w2)
          = quiet (trace w) @ Popen c # (if pn = 2 then [Emit (Progress_signal 50)] else [])"
        "last_progress w2 = last_progress w"
      using w1 by (simp_all add: w2_def frame quiet_append)
    obtain r3 w3 where rl: "read_lines pn d nm ls w2 = (r3, w3)"
      by (cases "read_lines pn d nm ls w2")
    from read_lines_shape [OF rl] obtain ps where ps:
      "quiet (trace w3) = quiet (trace w2) @ progress_acts ps"
      "rising (last_progress w2) ps (cap pn)"
      "last_progress w3 = last (last_progress w2 # ps)"
      "length ps \<le> length (time_lines ls)"
      by blast
    have res: "(r, w') = (case r3 of Inl e \<Rightarrow> (Inl e, w3)
                 | Inr u \<Rightarrow> (Inr (), if pn = 1
                      then (emit (Progress_signal 50) (leave_files fs w3))\<lparr>last_progress := 50\<rparr>
                      else leave_files fs w3))"
      using assms False Ran rl
      by (auto simp add: run_ffmpeg_command_def w1_def [symmetric] w2_def [symmetric] Let_def
            split: sum.splits)
    show ?thesis
    proof (cases r3)
      case (Inl e)
      then have "r = Inl e" "w' = w3" using res by simp_all
      then show ?thesis
        using ps w2 Ran by (intro disjI2) (auto intro!: exI [of _ ps])
    next
      case (Inr u)
      then have r: "r = Inr ()"
        and w': "w' = (if pn = 1
                      then (emit (Progress_signal 50) (leave_files fs w3))\<lparr>last_progress := 50\<rparr>
                      else leave_files fs w3)"
        using res by simp_all
      have "quiet (trace w') = quiet (trace w3) @ (if pn = 1 then [Emit (Progress_signal 50)] else [])"
        "last_progress w' = (if pn = 1 then 50 else last_progress w3)"
        by (simp_all add: w' frame quiet_append)
      then show ?thesis
        using ps w2 Ran r by (intro disjI2) (auto intro!: exI [of _ ps])
    qed
  qed
qed


lemma compress_video_shape:
  assumes cv: "compress_video ev j io bo w = (r, w')"
  shows "\<exists>st inp tb ps1 ps2.
      quiet (trace w') = quiet (trace w)
        @ two_pass_body st (Encode_pass 1 inp tb None) ps1
            (Encode_pass 2 inp tb (Some (output_file j))) ps2
    \<and> inp = (case io of Some p \<Rightarrow> p | None \<Rightarrow> input_file j)
    \<and> tb = (case bo of Some b \<Rightarrow> (if b \<noteq> 0 then Some b else target_bitrate j)
                       | None \<Rightarrow> target_bitrate j)
    \<and> rising (last_progress w) ps1 50 \<and> rising 50 ps2 100
    \<and> (r = Inr () \<longrightarrow> st = During_pass2)
    \<and> (st = Launching_pass2
        \<longrightarrow> engine ev (Encode_pass 2 inp tb (Some (output_file j))) = Launch_failed)
    \<and> (st = During_pass2
        \<longrightarrow> (\<exists>ls rc fs. engine ev (Encode_pass 2 inp tb (Some (output_file j))) = Ran ls rc fs
               \<and> length ps2 \<le> length (time_lines ls)))"
proof -
  define inp where "inp = (case io of Some p \<Rightarrow> p | None \<Rightarrow> input_file j)"
  define tb where "tb = (case bo of Some b \<Rightarrow> (if b \<noteq> 0 then Some b else target_bitrate j)
                                   | None \<Rightarrow> target_bitrate j)"
  define c1 where "c1 = Encode_pass 1 inp tb None"
  define c2 where "c2 = Encode_pass 2 inp tb (Some (output_file j))"
  have goal: ?thesis
    if "quiet (trace w') = quiet (trace w) @ two_pass_body st c1 ps1 c2 ps2"
      "rising (last_progress w) ps1 50" "rising 50 ps2 100" "r = Inr () \<longrightarrow> st = During_pass2"
      "st = Launching_pass2 \<longrightarrow> engine ev c2 = Launch_failed"
      "st = During_pass2 \<longrightarrow> (\<exists>ls rc fs. engine ev c2 = Ran ls rc fs
               \<and> length ps2 \<le> length (time_lines ls))"
    for st ps1 ps2
    using that unfolding c1_def c2_def
    by (intro exI [of _ st] exI [of _ inp] exI [of _ tb] exI [of _ ps1] exI [of _ ps2])
       (simp add: inp_def tb_def)
  show ?thesis
  proof (cases "\<exists>d. get_ffmpeg_path ev = Inr () \<and> get_video_duration ev inp = Inr (Some d)")
    case False
    then have "w' = w" "r \<noteq> Inr ()"
      using cv unfolding compress_video_def inp_def
      by (auto simp: Let_def split: sum.splits option.splits)
    then show ?thesis
      by (intro goal [of Before_pass1 "[]" "[]"]) (simp_all add: rising_Nil)
  next
    case True
    then obtain d where d: "get_ffmpeg_path ev = Inr ()" "get_video_duration ev inp = Inr (Some d)"
      by blast
    obtain r1 w1 where p1: "run_ffmpeg_command ev c1 ''pass1_log.txt'' 1 d w = (r1, w1)"
      by (cases "run_ffmpeg_command ev c1 ''pass1_log.txt'' 1 d w")
    have res: "(r, w') = (case r1 of Inl e \<Rightarrow> (Inl e, w1)
                 | Inr u \<Rightarrow> run_ffmpeg_command ev c2 ''pass2_log.txt'' 2 d w1)"
      using cv d p1 unfolding compress_video_def c1_def c2_def inp_def tb_def
      by (auto simp: Let_def split: sum.splits)
    show ?thesis
    proof (cases r1)
      case (Inl e)
      then have rw: "r = Inl e" "w' = w1" using res by simp_all
      from run_ffmpeg_command_shape [OF p1] Inl
      consider "quiet (trace w1) = quiet (trace w)"
        | "quiet (trace w1) = quiet (trace w) @ [Popen c1]"
        | ps where "quiet (trace w1) = quiet (trace w) @ Popen c1 # progress_acts ps"
            "rising (last_progress w) ps 50"
        by (auto simp: cap_def)
      then show ?thesis
      proof cases
        case 1
        then show ?thesis using rw
          by (intro goal [of Before_pass1 "[]" "[]"]) (simp_all add: rising_Nil)
      next
        case 2
        then show ?thesis using rw
          by (intro goal [of During_pass1 "[]" "[]"]) (simp_all add: rising_Nil progress_acts_simps)
      next
        case 3
        then show ?thesis using rw
          by (intro goal [of During_pass1 ps "[]"]) (simp_all add: rising_Nil)
      qed
    next
      case (Inr u)
      then have p2: "run_ffmpeg_command ev c2 ''pass2_log.txt'' 2 d w1 = (r, w')"
        using res by simp
      from run_ffmpeg_command_shape [OF p1] Inr
      obtain ps1 where ps1:
        "quiet (trace w1) = quiet (trace w) @ Popen c1 # progress_acts ps1 @ [Emit (Progress_signal 50)]"
        "rising (last_progress w) ps1 50" "last_progress w1 = 50"
        by (auto simp: cap_def)
      from run_ffmpeg_command_shape [OF p2]
      consider "r \<noteq> Inr ()" "quiet (trace w') = quiet (trace w1)"
        | "r \<noteq> Inr ()" "engine ev c2 = Launch_failed" "quiet (trace w') = quiet (trace w1) @ [Popen c2]"
        | ls rc fs ps2 where "engine ev c2 = Ran ls rc fs"
            "quiet (trace w') = quiet (trace w1) @ Popen c2 # Emit (Progress_signal 50) # progress_acts ps2"
            "rising 50 ps2 100" "length ps2 \<le> length (time_lines ls)"
        using ps1(3) by (auto simp: cap_def)
      then show ?thesis
      proof cases
        case 1
        then show ?thesis using ps1
          by (intro goal [of After_pass1 ps1 "[]"]) (simp_all add: rising_Nil)
      next
        case 2
        then show ?thesis using ps1
          by (intro goal [of Launching_pass2 ps1 "[]"]) (simp_all add: rising_Nil)
      next
        case 3
        then show ?thesis using ps1
          by (intro goal [of During_pass2 ps1 ps2]) auto
      qed
    qed
  qed
qed

lemma trim_video_shape:
  assumes "trim_video ev j oo w = (r, w')"
  shows "last_progress w' = last_progress w
    \<and> (\<exists>pre. quiet (trace w') = quiet (trace w) @ pre
          \<and> (\<forall>a\<in>set pre. is_trim_step a \<and> \<not> is_move a))"
proof (cases "\<exists>e s. get_ffmpeg_path ev = Inr () \<and> end_time j = Some e \<and> start_time j = Some s")
  case False
  then have "w' = w"
    using assms by (auto simp: trim_video_def Let_def split: sum.splits option.splits)
  then show ?thesis by (auto intro: exI [of _ "[]"])
next
  case True
  then obtain e s where es: "get_ffmpeg_path ev = Inr ()" "end_time j = Some e" "start_time j = Some s"
    by blast
  define out where "out = (case oo of Some p \<Rightarrow> p | None \<Rightarrow> output_file j)"
  define c where "c = Trim_copy s (input_file j) (e - s) out"
  have "last_progress w' = last_progress w \<and> quiet (trace w') = quiet (trace w) @ [Popen c]"
    using assms es unfolding trim_video_def c_def out_def
    by (auto simp: Let_def frame quiet_append split: proc.splits if_splits)
  then show ?thesis
    by (auto simp: c_def intro!: exI [of _ "[Popen c]"])
qed

lemma fs_move_trace:
  "fs_read w src \<noteq> None \<Longrightarrow> trace (fs_move src dst w) = trace w @ [Move src dst]"
  "last_progress (fs_move src dst w) = last_progress w"
  by (auto simp: fs_move_def frame split: option.splits)

lemma get_file_size_exists: "get_file_size w p = Inr sz \<Longrightarrow> fs_read w p \<noteq> None"
  by (auto simp: get_file_size_def split: option.splits)

lemma compress_trim_video_shape:
  assumes ct: "compress_trim_video ev j w = (r, w')"
  shows "\<exists>pre st inp tb ps1 ps2.
      quiet (trace w') = quiet (trace w) @ pre
        @ two_pass_body st (Encode_pass 1 inp tb None) ps1
            (Encode_pass 2 inp tb (Some (output_file j))) ps2
    \<and> (\<forall>a\<in>set pre. is_trim_step a)
    \<and> rising (last_progress w) ps1 50 \<and> rising 50 ps2 100
    \<and> (r = Inr () \<longrightarrow> st = During_pass2 \<or> (st = Before_pass1 \<and> (\<exists>a\<in>set pre. is_move a)))
    \<and> (st = Launching_pass2
        \<longrightarrow> engine ev (Encode_pass 2 inp tb (Some (output_file j))) = Launch_failed)
    \<and> (st = During_pass2
        \<longrightarrow> (\<exists>ls rc fs. engine ev (Encode_pass 2 inp tb (Some (output_file j))) = Ran ls rc fs
               \<and> length ps2 \<le> length (time_lines ls)))"
proof -
  define w0 where "w0 = w\<lparr>temp_files := temp_files w @ [temp_path j]\<rparr>"
  obtain r1 w1 where tv: "trim_video ev j (Some (temp_path j)) w0 = (r1, w1)"
    by (cases "trim_video ev j (Some (temp_path j)) w0")
  from trim_video_shape [OF tv] obtain pre where pre:
    "last_progress w1 = last_progress w" "quiet (trace w1) = quiet (trace w) @ pre"
    "\<forall>a\<in>set pre. is_trim_step a \<and> \<not> is_move a"
    by (auto simp: w0_def)
  have stop: ?thesis if "w' = w1" "r \<noteq> Inr ()"
    using that pre
    by (intro exI [of _ pre] exI [of _ Before_pass1] exI [of _ "input_file j"] exI [of _ None]
          exI [of _ "[]"] exI [of _ "[]"])
       (simp add: rising_Nil)
  define tp where "tp = temp_path j"
  have step: "(r, w') =
      (case r1 of
         Inl e \<Rightarrow> (Inl e, w1)
       | Inr u \<Rightarrow>
          (case get_file_size w1 tp of
             Inl e \<Rightarrow> (Inl e, w1)
           | Inr sz \<Rightarrow>
              (case target_size j of
                 None \<Rightarrow> (Inl TypeError, w1)
               | Some ts \<Rightarrow>
                  (if sz \<le> ts then
                     (case move_error ev of
                        Some msg \<Rightarrow> (Inl (RuntimeError (''Failed to use trimmed video: '' @ msg)), w1)
                      | None \<Rightarrow> (Inr (), fs_move tp (output_file j) w1))
                   else
                     (case get_video_duration ev tp of
                        Inl e \<Rightarrow> (Inl e, w1)
                      | Inr du \<Rightarrow>
                         (case plan_bitrate ts du of
                            Inl e \<Rightarrow> (Inl e, w1)
                          | Inr b \<Rightarrow> compress_video ev j (Some tp) (Some b) w1))))))"
    using ct tv unfolding compress_trim_video_def w0_def tp_def
    by (simp add: Let_def)
  have cases3: "(w' = w1 \<and> r \<noteq> Inr ())
      \<or> (\<exists>sz. r = Inr () \<and> get_file_size w1 tp = Inr sz \<and> w' = fs_move tp (output_file j) w1)
      \<or> (\<exists>b. compress_video ev j (Some tp) (Some b) w1 = (r, w'))"
  proof (cases r1)
    case (Inl e)
    then show ?thesis using step by simp
  next
    case (Inr u)
    note r1 = this
    show ?thesis
    proof (cases "get_file_size w1 tp")
      case (Inl e)
      then show ?thesis using step r1 by simp
    next
      case (Inr sz)
      note gs = this
      show ?thesis
      proof (cases "target_size j")
        case None
        then show ?thesis using step r1 gs by simp
      next
        case (Some ts)
        note ts = this
        show ?thesis
        proof (cases "sz \<le> ts")
          case True
          then show ?thesis using step r1 gs ts by (cases "move_error ev") simp_all
        next
          case False
          note big = this
          show ?thesis
          proof (cases "get_video_duration ev tp")
            case (Inl e)
            then show ?thesis using step r1 gs ts big by simp
          next
            case (Inr du)
            then show ?thesis using step r1 gs ts big by (cases "plan_bitrate ts du") auto
          qed
        qed
      qed
    qed
  qed
  then consider (stopped) "w' = w1" "r \<noteq> Inr ()"
    | (moved) sz where "r = Inr ()" "get_file_size w1 (temp_path j) = Inr sz"
        "w' = fs_move (temp_path j) (output_file j) w1"
    | (encode) b where "compress_video ev j (Some (temp_path j)) (Some b) w1 = (r, w')"
    unfolding tp_def by blast
  then show ?thesis
  proof cases
    case stopped
    then show ?thesis by (rule stop)
  next
    case moved
    then have "trace w' = trace w1 @ [Move (temp_path j) (output_file j)]"
        "last_progress w' = last_progress w1"
      using get_file_size_exists fs_move_trace by simp_all
    then show ?thesis
      using pre moved(1)
      by (intro exI [of _ "pre @ [Move (temp_path j) (output_file j)]"] exI [of _ Before_pass1]
            exI [of _ "input_file j"] exI [of _ None] exI [of _ "[]"] exI [of _ "[]"])
         (simp add: rising_Nil quiet_append)
  next
    case encode
    from compress_video_shape [OF encode] obtain st inp tb ps1 ps2 where sh:
      "quiet (trace w') = quiet (trace w1)
        @ two_pass_body st (Encode_pass 1 inp tb None) ps1
            (Encode_pass 2 inp tb (Some (output_file j))) ps2"
      "rising (last_progress w1) ps1 50" "rising 50 ps2 100"
      "r = Inr () \<longrightarrow> st = During_pass2"
      "st = Launching_pass2
        \<longrightarrow> engine ev (Encode_pass 2 inp tb (Some (output_file j))) = Launch_failed"
      "st = During_pass2
        \<longrightarrow> (\<exists>ls rc fs. engine ev (Encode_pass 2 inp tb (Some (output_file j))) = Ran ls rc fs
               \<and> length ps2 \<le> length (time_lines ls))"
      by blast
    then show ?thesis
      using pre
      by (intro exI [of _ pre] exI [of _ st] exI [of _ inp] exI [of _ tb] exI [of _ ps1]
            exI [of _ ps2]) simp
  qed
qed

lemma pipeline_shape:
  assumes pl: "pipeline ev j w = (r, w')"
  shows "\<exists>pre st inp tb ps1 ps2.
      quiet (trace w') = quiet (trace w) @ pre
        @ two_pass_body st (Encode_pass 1 inp tb None) ps1
            (Encode_pass 2 inp tb (Some (output_file j))) ps2
        @ (if \<not> has_target j \<and> r = Inr () then [Emit (Progress_signal 100)] else [])
    \<and> (\<forall>a\<in>set pre. is_trim_step a)
    \<and> rising (last_progress w) ps1 50 \<and> rising 50 ps2 100
    \<and> (\<not> has_target j \<longrightarrow> st = Before_pass1)
    \<and> (r = Inr () \<and> has_target j
        \<longrightarrow> st = During_pass2 \<or> (st = Before_pass1 \<and> (\<exists>a\<in>set pre. is_move a)))
    \<and> (st = Launching_pass2
        \<longrightarrow> engine ev (Encode_pass 2 inp tb (Some (output_file j))) = Launch_failed)
    \<and> (st = During_pass2
        \<longrightarrow> (\<exists>ls rc fs. engine ev (Encode_pass 2 inp tb (Some (output_file j))) = Ran ls rc fs
               \<and> length ps2 \<le> length (time_lines ls)))"
proof -
  consider (both) "has_target j" "compress_trim_video ev j w = (r, w')"
    | (size) "has_target j" "compress_video ev j None None w = (r, w')"
    | (trim) r1 w1 where "\<not> has_target j" "trim_video ev j None w = (r1, w1)"
        "r = r1" "w' = (if r1 = Inr () then emit (Progress_signal 100) w1 else w1)"
    using pl unfolding pipeline_def
    by (cases "trim_video ev j None w") (auto split: if_splits sum.splits)
  then show ?thesis
  proof cases
    case both
    from compress_trim_video_shape [OF both(2)] both(1) show ?thesis
      by (elim exE conjE) (intro exI conjI; (assumption | simp))
  next
    case size
    from compress_video_shape [OF size(2)] obtain st inp tb ps1 ps2 where sh:
      "quiet (trace w') = quiet (trace w)
        @ two_pass_body st (Encode_pass 1 inp tb None) ps1
            (Encode_pass 2 inp tb (Some (output_file j))) ps2"
      "rising (last_progress w) ps1 50" "rising 50 ps2 100"
      "r = Inr () \<longrightarrow> st = During_pass2"
      "st = Launching_pass2
        \<longrightarrow> engine ev (Encode_pass 2 inp tb (Some (output_file j))) = Launch_failed"
      "st = During_pass2
        \<longrightarrow> (\<exists>ls rc fs. engine ev (Encode_pass 2 inp tb (Some (output_file j))) = Ran ls rc fs
               \<and> length ps2 \<le> length (time_lines ls))"
      by blast
    then show ?thesis
      using size(1)
      by (intro exI [of _ "[]"] exI [of _ st] exI [of _ inp] exI [of _ tb] exI [of _ ps1]
            exI [of _ ps2]) simp
  next
    case trim
    from trim_video_shape [OF trim(2)] obtain pre where pre:
      "quiet (trace w1) = quiet (trace w) @ pre" "\<forall>a\<in>set pre. is_trim_step a \<and> \<not> is_move a"
      by blast
    have "quiet (trace w') = quiet (trace w1)
            @ (if r = Inr () then [Emit (Progress_signal 100)] else [])"
      using trim(3,4) by (simp add: frame quiet_append)
    then show ?thesis
      using pre trim(1)
      by (intro exI [of _ pre] exI [of _ Before_pass1] exI [of _ "input_file j"] exI [of _ None]
            exI [of _ "[]"] exI [of _ "[]"])
         (simp add: rising_Nil)
  qed
qed

subsection \<open>The trace of a whole run\<close>

lemma run_cases:
  assumes "run ev j w = (ro, w')"
  obtains (failed) e w1 where "pipeline ev j w = (Inl e, w1)" "ro = None"
      "trace w' = trace w1 @ Emit (Error_signal e) # Cleanup # delete_errors ev (scratch w1)"
  | (escaped) e w1 where "pipeline ev j w = (Inr (), w1)"
      "get_file_size w1 (output_file j) = Inl e" "ro = Some e" "w' = w1"
  | (finished) sz w1 where "pipeline ev j w = (Inr (), w1)"
      "get_file_size w1 (output_file j) = Inr sz" "ro = None"
      "trace w' = trace w1 @ Emit (Done_signal (output_file j) (py_round1 (elapsed ev)) sz)
         # Cleanup # delete_errors ev (scratch w1)"
proof -
  obtain r w1 where p: "pipeline ev j w = (r, w1)" by (cases "pipeline ev j w")
  show ?thesis
  proof (cases r)
    case (Inl e)
    then show ?thesis
      using assms p by (intro failed [of e w1]) (auto simp: run_def cleanup_closed emit_def act_def)
  next
    case (Inr u)
    then have r: "r = Inr ()" by simp
    show ?thesis
    proof (cases "get_file_size w1 (output_file j)")
      case (Inl e)
      then show ?thesis
        using assms p r by (intro escaped [of w1 e]) (auto simp: run_def)
    next
      case (Inr sz)
      then show ?thesis
        using assms p r
        by (intro finished [of w1 sz]) (auto simp: run_def cleanup_closed emit_def act_def)
    qed
  qed
qed

lemma progress_values_trim_steps: "\<forall>a\<in>set pre. is_trim_step a \<Longrightarrow> progress_values pre = []"
  by (induction pre rule: progress_values.induct) auto

lemma progress_values_delete_errors: "progress_values (delete_errors ev es) = []"
  by (induction ev es rule: delete_errors.induct) auto

lemma progress_values_body:
  "progress_values (two_pass_body st c1 ps1 c2 ps2) =
     (case st of Before_pass1 \<Rightarrow> [] | During_pass1 \<Rightarrow> ps1 | After_pass1 \<Rightarrow> ps1 @ [50]
      | Launching_pass2 \<Rightarrow> ps1 @ [50] | During_pass2 \<Rightarrow> ps1 @ [50, 50] @ ps2)"
  by (cases st) (simp_all add: progress_values_append progress_values_acts)

lemma rising_bounds: "rising lo ps hi \<Longrightarrow> sorted_wrt (<) ps \<and> (\<forall>p\<in>set ps. lo < p \<and> p \<le> hi)"
  by (auto simp: rising_def)

lemma rising_sorted: "rising lo ps hi \<Longrightarrow> sorted ps"
  by (auto simp: rising_def intro: sorted_wrt_mono_rel [where P = "(<)"])


lemma set_quiet: "set (quiet tr) \<subseteq> set tr"
  by (induction tr rule: quiet.induct) auto

lemma in_quiet: "a \<in> set tr \<Longrightarrow> (\<And>l. a \<noteq> Emit (Log_signal l)) \<Longrightarrow> a \<in> set (quiet tr)"
  by (induction tr rule: quiet.induct) auto

lemma body_members:
  "a \<in> set (two_pass_body st c1 ps1 c2 ps2) \<Longrightarrow>
     a = Popen c1 \<or> a = Popen c2 \<or> (\<exists>p. a = Emit (Progress_signal p))"
  by (cases st) (auto simp: progress_acts_def)


lemma delete_errors_members:
  "a \<in> set (delete_errors ev es) \<Longrightarrow> \<exists>n. a = Print_delete_error n"
  by (induction ev es rule: delete_errors.induct) (auto split: if_splits)

lemma delete_errors_plain:
  "a \<in> set (delete_errors ev es) \<Longrightarrow> \<not> is_popen a \<and> \<not> is_terminal a \<and> a \<noteq> Cleanup"
  using delete_errors_members by fastforce

lemma trim_step_cases: "is_trim_step a \<Longrightarrow> (\<exists>s i t out. a = Popen (Trim_copy s i t out)) \<or> is_move a"
  by (cases a rule: is_trim_step.cases) auto



lemma run_progress_stages:
  assumes "run ev j (init_world sc el) = (ro, w')"
  shows "\<exists>st ps1 ps2.
      progress_values (trace w') =
        (case st of Before_pass1 \<Rightarrow> [] | During_pass1 \<Rightarrow> ps1 | After_pass1 \<Rightarrow> ps1 @ [50]
         | Launching_pass2 \<Rightarrow> ps1 @ [50] | During_pass2 \<Rightarrow> ps1 @ [50, 50] @ ps2)
        @ (if \<not> has_target j \<and> fst (pipeline ev j (init_world sc el)) = Inr () then [100] else [])
    \<and> rising 0 ps1 50 \<and> rising 50 ps2 100
    \<and> (\<not> has_target j \<longrightarrow> st = Before_pass1)
    \<and> (has_target j \<and> fst (pipeline ev j (init_world sc el)) = Inr ()
          \<and> \<not> (\<exists>a\<in>set (trace w'). is_move a) \<longrightarrow> st = During_pass2)"
proof -
  obtain r w1 where p: "pipeline ev j (init_world sc el) = (r, w1)"
    by (cases "pipeline ev j (init_world sc el)")
  have same: "progress_values (trace w') = progress_values (trace w1)"
    and sub: "set (trace w1) \<subseteq> set (trace w')"
    using assms p
    by (cases rule: run_cases [OF assms];
        auto simp: progress_values_append progress_values_delete_errors)+
  from pipeline_shape [OF p] obtain pre st inp tb ps1 ps2 where sh:
    "quiet (trace w1) = quiet (trace (init_world sc el)) @ pre
        @ two_pass_body st (Encode_pass 1 inp tb None) ps1
            (Encode_pass 2 inp tb (Some (output_file j))) ps2
        @ (if \<not> has_target j \<and> r = Inr () then [Emit (Progress_signal 100)] else [])"
    "\<forall>a\<in>set pre. is_trim_step a"
    "rising (last_progress (init_world sc el)) ps1 50" "rising 50 ps2 100"
    "\<not> has_target j \<longrightarrow> st = Before_pass1"
    "r = Inr () \<and> has_target j
        \<longrightarrow> st = During_pass2 \<or> (st = Before_pass1 \<and> (\<exists>a\<in>set pre. is_move a))"
    by blast
  have "set pre \<subseteq> set (quiet (trace w1))" by (auto simp: sh(1))
  then have pre_sub: "set pre \<subseteq> set (trace w')" using set_quiet sub by blast
  have "progress_values (trace w1) = progress_values (quiet (trace w1))"
    by (simp add: progress_values_quiet)
  also have "\<dots> = progress_values (two_pass_body st (Encode_pass 1 inp tb None) ps1
            (Encode_pass 2 inp tb (Some (output_file j))) ps2)
        @ (if \<not> has_target j \<and> r = Inr () then [100] else [])"
    using sh(2) by (simp add: sh(1) init_world_def progress_values_append progress_values_trim_steps)
  finally have pv: "progress_values (trace w') =
        (case st of Before_pass1 \<Rightarrow> [] | During_pass1 \<Rightarrow> ps1 | After_pass1 \<Rightarrow> ps1 @ [50]
         | Launching_pass2 \<Rightarrow> ps1 @ [50] | During_pass2 \<Rightarrow> ps1 @ [50, 50] @ ps2)
        @ (if \<not> has_target j \<and> fst (pipeline ev j (init_world sc el)) = Inr () then [100] else [])"
    using p same by (simp add: progress_values_body)
  have "has_target j \<and> r = Inr () \<and> \<not> (\<exists>a\<in>set (trace w'). is_move a) \<longrightarrow> st = During_pass2"
    using sh(6) pre_sub by blast
  then show ?thesis
    using pv sh(3-5) p
    by (intro exI [of _ st] exI [of _ ps1] exI [of _ ps2]) (simp add: init_world_def)
qed


lemma pipeline_no_control:
  assumes p: "pipeline ev j (init_world sc el) = (r, w1)" and a: "a \<in> set (trace w1)"
  shows "\<not> is_terminal a \<and> a \<noteq> Cleanup"
proof (rule ccontr)
  assume c: "\<not> (\<not> is_terminal a \<and> a \<noteq> Cleanup)"
  then have nl: "\<And>l. a \<noteq> Emit (Log_signal l)" by auto
  from pipeline_shape [OF p] obtain pre st inp tb ps1 ps2 where sh:
    "quiet (trace w1) = quiet (trace (init_world sc el)) @ pre
        @ two_pass_body st (Encode_pass 1 inp tb None) ps1
            (Encode_pass 2 inp tb (Some (output_file j))) ps2
        @ (if \<not> has_target j \<and> r = Inr () then [Emit (Progress_signal 100)] else [])"
    "\<forall>a\<in>set pre. is_trim_step a"
    by blast
  have "a \<in> set (quiet (trace w1))" using a nl by (rule in_quiet)
  then consider "a \<in> set pre"
    | "a \<in> set (two_pass_body st (Encode_pass 1 inp tb None) ps1
            (Encode_pass 2 inp tb (Some (output_file j))) ps2)"
    | "a = Emit (Progress_signal 100)"
    by (auto simp: sh(1) init_world_def split: if_splits)
  then show False
  proof cases
    case 1
    then have "is_trim_step a" using sh(2) by blast
    then show False using c trim_step_cases by (cases a rule: is_trim_step.cases) auto
  next
    case 2
    from body_members [OF this] show False using c by auto
  next
    case 3
    then show False using c by simp
  qed
qed









subsection \<open>Concrete runs\<close>

lemmas run_eval = run_def pipeline_def has_target_def has_window_def compress_video_def
  compress_trim_video_def trim_video_def get_ffmpeg_path_def get_video_duration_def
  run_ffmpeg_command_def track_progress_def processed_line_def first_token_def log_write_def
  int_of_float_def pass_progress_def plan_bitrate_def temp_path_def fs_move_def
  get_file_size_def fs_read_def fs_write_def fs_remove_def py_round1_def cleanup_temp_files_def
  init_world_def act_def emit_def lstrip_def no_files_def

lemmas data_eval = in_clip_def out_clip_def job_size_def job_trim_def job_both_def job_neither_def
  env_good_def good_engine_def env_exit1_def failing_engine_def env_broken_def



lemmas data_eval2 = data_eval env_big_def env_late_def scratch_mixed_def env_locked_def

lemma filter_terminal_quiet: "filter is_terminal (quiet tr) = filter is_terminal tr"
  by (induction tr rule: quiet.induct) simp_all

lemma filter_move_quiet: "filter is_move (quiet tr) = filter is_move tr"
  by (induction tr rule: quiet.induct) simp_all


lemma good_size_result: "fst (run env_good job_size (init_world [] no_files)) = None"
  by (simp add: run_eval data_eval2 float_eval Let_def)

lemma good_size_quiet:
  "quiet (trace (snd (run env_good job_size (init_world [] no_files))))
   = [Popen (Encode_pass 1 in_clip (Some (10 * 8 * 1024 / 120)) None),
      Emit (Progress_signal 25), Emit (Progress_signal 50),
      Popen (Encode_pass 2 in_clip (Some (10 * 8 * 1024 / 120)) (Some out_clip)),
      Emit (Progress_signal 50), Emit (Progress_signal 75),
      Emit (Done_signal out_clip 7 0), Cleanup]"
  by (simp add: run_eval data_eval2 float_eval Let_def)

lemma good_size_progress:
  "progress_values (trace (snd (run env_good job_size (init_world [] no_files)))) = [25, 50, 50, 75]"
  using arg_cong [OF good_size_quiet, of progress_values] by (simp add: progress_values_quiet)

lemma good_size_terminal:
  "filter is_terminal (trace (snd (run env_good job_size (init_world [] no_files))))
   = [Emit (Done_signal out_clip 7 0)]"
  using arg_cong [OF good_size_quiet, of "filter is_terminal"] by (simp add: filter_terminal_quiet)

lemma good_size_no_move:
  "filter is_move (trace (snd (run env_good job_size (init_world [] no_files)))) = []"
  using arg_cong [OF good_size_quiet, of "filter is_move"] by (simp add: filter_move_quiet)

lemma good_size_pipeline: "fst (pipeline env_good job_size (init_world [] no_files)) = Inr ()"
  by (simp add: run_eval data_eval2 float_eval Let_def)

lemma good_trim_pipeline: "fst (pipeline env_good job_trim (init_world [] no_files)) = Inr ()"
  by (simp add: run_eval data_eval2 float_eval Let_def)

lemma exit1_size_result: "fst (run env_exit1 job_size (init_world [] no_files)) = None"
  by (simp add: run_eval data_eval2 float_eval Let_def)

lemma exit1_size_quiet:
  "quiet (trace (snd (run env_exit1 job_size (init_world [] no_files))))
   = [Popen (Encode_pass 1 in_clip (Some (10 * 8 * 1024 / 120)) None),
      Emit (Progress_signal 25), Emit (Progress_signal 50),
      Popen (Encode_pass 2 in_clip (Some (10 * 8 * 1024 / 120)) (Some out_clip)),
      Emit (Progress_signal 50), Emit (Progress_signal 75),
      Emit (Done_signal out_clip 7 0), Cleanup]"
  by (simp add: run_eval data_eval2 float_eval Let_def)

lemma exit1_trim_quiet:
  "quiet (trace (snd (run env_exit1 job_trim (init_world [] no_files))))
   = [Popen (Trim_copy 10 in_clip 30 out_clip),
      Emit (Error_signal (RuntimeError ''Trimming failed.'')), Cleanup]"
  by (simp add: run_eval data_eval2 float_eval Let_def)

lemma exit1_trim_not_cleaned:
  "\<not> cleaned_first (trace (snd (run env_exit1 job_trim (init_world [] no_files))))"
  by (simp add: run_eval data_eval2 float_eval Let_def)

lemma broken_size_result: "fst (run env_broken job_size (init_world [] no_files)) = Some OSError"
  by (simp add: run_eval data_eval2 float_eval Let_def)

lemma broken_size_quiet:
  "quiet (trace (snd (run env_broken job_size (init_world [] no_files))))
   = [Popen (Encode_pass 1 in_clip (Some (10 * 8 * 1024 / 120)) None),
      Emit (Progress_signal 50),
      Popen (Encode_pass 2 in_clip (Some (10 * 8 * 1024 / 120)) (Some out_clip)),
      Emit (Progress_signal 50)]"
  by (simp add: run_eval data_eval2 float_eval Let_def)

lemma late_size_quiet:
  "quiet (trace (snd (run env_late job_size (init_world [] no_files))))
   = [Popen (Encode_pass 1 in_clip (Some (10 * 8 * 1024 / 120)) None),
      Emit (Progress_signal 50), Emit (Progress_signal 50),
      Popen (Encode_pass 2 in_clip (Some (10 * 8 * 1024 / 120)) (Some out_clip)),
      Emit (Progress_signal 50), Emit (Progress_signal 100),
      Emit (Done_signal out_clip 7 0), Cleanup]"
  by (simp add: run_eval data_eval2 float_eval Let_def)

lemma good_trim_quiet:
  "quiet (trace (snd (run env_good job_trim (init_world [] no_files))))
   = [Popen (Trim_copy 10 in_clip 30 out_clip), Emit (Progress_signal 100),
      Emit (Done_signal out_clip 7 0), Cleanup]"
  by (simp add: run_eval data_eval2 float_eval Let_def)

lemma good_neither_trace:
  "trace (snd (run env_good job_neither (init_world [] no_files)))
   = [Emit (Error_signal TypeError), Cleanup]"
  by (simp add: run_eval data_eval2 float_eval Let_def)








subsection \<open>Progress\<close>

text \<open>
  C5. From the state the constructor leaves, the progress values of a run come in
  non-decreasing order and each lies between 0 and 100. A job without a size target emits
  the single value 100 when its trim has completed and no value when it has not.
\<close>

theorem progress_non_decreasing:
  assumes "run ev j (init_world sc el) = (ro, w')"
  shows "sorted (progress_values (trace w'))
    \<and> (\<forall>p\<in>set (progress_values (trace w')). 0 \<le> p \<and> p \<le> 100)
    \<and> (\<not> has_target j \<longrightarrow>
          progress_values (trace w')
            = (if fst (pipeline ev j (init_world sc el)) = Inr () then [100] else []))"
proof -
  from run_progress_stages [OF assms] obtain st ps1 ps2 where sh:
    "progress_values (trace w') =
        (case st of Before_pass1 \<Rightarrow> [] | During_pass1 \<Rightarrow> ps1 | After_pass1 \<Rightarrow> ps1 @ [50]
         | Launching_pass2 \<Rightarrow> ps1 @ [50] | During_pass2 \<Rightarrow> ps1 @ [50, 50] @ ps2)
        @ (if \<not> has_target j \<and> fst (pipeline ev j (init_world sc el)) = Inr () then [100] else [])"
    "rising 0 ps1 50" "rising 50 ps2 100" "\<not> has_target j \<longrightarrow> st = Before_pass1"
    by blast
  have b1: "sorted ps1" "\<forall>p\<in>set ps1. 0 < p \<and> p \<le> 50"
    using sh(2) rising_sorted rising_bounds by blast+
  have b2: "sorted ps2" "\<forall>p\<in>set ps2. 50 < p \<and> p \<le> 100"
    using sh(3) rising_sorted rising_bounds by blast+
  show ?thesis
  proof (cases "has_target j")
    case False
    then show ?thesis using sh(1,4) by simp
  next
    case True
    then have pv: "progress_values (trace w') =
        (case st of Before_pass1 \<Rightarrow> [] | During_pass1 \<Rightarrow> ps1 | After_pass1 \<Rightarrow> ps1 @ [50]
         | Launching_pass2 \<Rightarrow> ps1 @ [50] | During_pass2 \<Rightarrow> ps1 @ [50, 50] @ ps2)"
      using sh(1) by simp
    show ?thesis
      using b1 b2 True unfolding pv
      by (cases st) (force simp: sorted_append)+
  qed
qed

theorem progress_non_decreasing_witness:
  "sorted (progress_values (trace (snd (run env_good job_size (init_world [] no_files)))))
   \<and> progress_values (trace (snd (run env_good job_size (init_world [] no_files)))) = [25, 50, 50, 75]
   \<and> \<not> has_target job_trim
   \<and> fst (pipeline env_good job_trim (init_world [] no_files)) = Inr ()
   \<and> progress_values (trace (snd (run env_good job_trim (init_world [] no_files)))) = [100]"
proof -
  have t: "\<not> has_target job_trim" by (simp add: has_target_def job_trim_def)
  show ?thesis
    using progress_non_decreasing [OF surjective_pairing, of env_good job_size "[]" no_files]
      progress_non_decreasing [OF surjective_pairing, of env_good job_trim "[]" no_files]
      t good_trim_pipeline good_size_progress
    by simp
qed

text \<open>
  C4, as the code has it. The progress values of a run are, in order: the values of pass 1
  derived from parsed times, strictly increasing and in (0, 50]; then the values forwarded
  without a comparison, which are nothing, the 50 at the exit of pass 1, that 50 and the 50
  at the start of pass 2, or the 100 of a job without size target; then the values of pass 2
  derived from parsed times, strictly increasing and in (50, 100]. So every value derived
  from a parsed time exceeds all values before it, and a size job whose pipeline succeeds
  without the move has 50 twice in a row.
\<close>

theorem progress_strict_within_passes:
  assumes "run ev j (init_world sc el) = (ro, w')"
  shows "\<exists>ps1 mid ps2.
      progress_values (trace w') = ps1 @ mid @ ps2
    \<and> sorted_wrt (<) ps1 \<and> (\<forall>p\<in>set ps1. 0 < p \<and> p \<le> 50)
    \<and> sorted_wrt (<) ps2 \<and> (\<forall>p\<in>set ps2. 50 < p \<and> p \<le> 100)
    \<and> (mid = [] \<or> mid = [50] \<or> mid = [50, 50] \<or> (mid = [100] \<and> ps1 = []))
    \<and> (ps2 \<noteq> [] \<longrightarrow> mid = [50, 50])
    \<and> (has_target j \<and> fst (pipeline ev j (init_world sc el)) = Inr ()
          \<and> \<not> (\<exists>a\<in>set (trace w'). is_move a) \<longrightarrow> mid = [50, 50])"
proof -
  from run_progress_stages [OF assms] obtain st ps1 ps2 where sh:
    "progress_values (trace w') =
        (case st of Before_pass1 \<Rightarrow> [] | During_pass1 \<Rightarrow> ps1 | After_pass1 \<Rightarrow> ps1 @ [50]
         | Launching_pass2 \<Rightarrow> ps1 @ [50] | During_pass2 \<Rightarrow> ps1 @ [50, 50] @ ps2)
        @ (if \<not> has_target j \<and> fst (pipeline ev j (init_world sc el)) = Inr () then [100] else [])"
    "rising 0 ps1 50" "rising 50 ps2 100" "\<not> has_target j \<longrightarrow> st = Before_pass1"
    "has_target j \<and> fst (pipeline ev j (init_world sc el)) = Inr ()
          \<and> \<not> (\<exists>a\<in>set (trace w'). is_move a) \<longrightarrow> st = During_pass2"
    by blast
  note b1 = rising_bounds [OF sh(2)] and b2 = rising_bounds [OF sh(3)]
  show ?thesis
  proof (cases st)
    case Before_pass1
    then show ?thesis
      using sh(1,5)
      by (intro exI [of _ "[]"]
            exI [of _ "if \<not> has_target j \<and> fst (pipeline ev j (init_world sc el)) = Inr ()
                       then [100] else []"]
            exI [of _ "[]"])
         auto
  next
    case During_pass1
    then show ?thesis
      using sh(1,4,5) b1 by (intro exI [of _ ps1] exI [of _ "[]"] exI [of _ "[]"]) auto
  next
    case After_pass1
    then show ?thesis
      using sh(1,4,5) b1 by (intro exI [of _ ps1] exI [of _ "[50]"] exI [of _ "[]"]) auto
  next
    case Launching_pass2
    then show ?thesis
      using sh(1,4,5) b1 by (intro exI [of _ ps1] exI [of _ "[50]"] exI [of _ "[]"]) auto
  next
    case During_pass2
    then show ?thesis
      using sh(1,4,5) b1 b2 by (intro exI [of _ ps1] exI [of _ "[50, 50]"] exI [of _ ps2]) auto
  qed
qed

theorem progress_strict_within_passes_witness:
  "has_target job_size
   \<and> fst (pipeline env_good job_size (init_world [] no_files)) = Inr ()
   \<and> filter is_move (trace (snd (run env_good job_size (init_world [] no_files)))) = []
   \<and> (\<exists>ps1 ps2. progress_values (trace (snd (run env_good job_size (init_world [] no_files))))
                   = ps1 @ [50, 50] @ ps2
         \<and> sorted_wrt (<) ps1 \<and> sorted_wrt (<) ps2)"
proof -
  have t: "has_target job_size" by (simp add: has_target_def job_size_def)
  have m: "\<not> (\<exists>a\<in>set (trace (snd (run env_good job_size (init_world [] no_files)))). is_move a)"
    using good_size_no_move by (simp add: filter_empty_conv)
  from progress_strict_within_passes [OF surjective_pairing, of env_good job_size "[]" no_files]
  obtain ps1 mid ps2 where
    "progress_values (trace (snd (run env_good job_size (init_world [] no_files)))) = ps1 @ mid @ ps2"
    "sorted_wrt (<) ps1" "sorted_wrt (<) ps2"
    "has_target job_size \<and> fst (pipeline env_good job_size (init_world [] no_files)) = Inr ()
       \<and> \<not> (\<exists>a\<in>set (trace (snd (run env_good job_size (init_world [] no_files)))). is_move a)
     \<longrightarrow> mid = [50, 50]"
    by blast
  then show ?thesis
    using t m good_size_pipeline good_size_no_move by blast
qed

text \<open>
  C4 as stated fails: with a status line of pass 1 at the end of the scale, 50 is forwarded
  three times in a row, once from the parsed time and twice without a comparison.
\<close>

theorem progress_repeats_counterexample:
  "progress_values (trace (snd (run env_late job_size (init_world [] no_files)))) = [50, 50, 50, 100]
   \<and> \<not> sorted_wrt (<) (progress_values (trace (snd (run env_late job_size (init_world [] no_files)))))"
proof -
  have "progress_values (trace (snd (run env_late job_size (init_world [] no_files))))
        = [50, 50, 50, 100]"
    using arg_cong [OF late_size_quiet, of progress_values] by (simp add: progress_values_quiet)
  then show ?thesis by simp
qed




subsection \<open>The job controller\<close>

text \<open>
  C2, as the code has it. When \<^verbatim>\<open>run\<close> returns, its trace holds exactly one terminal event,
  success or error, and the cleanup starts right after that event, not before it; nothing
  before the event and nothing after the start of the cleanup is a terminal event or a
  cleanup.
\<close>

theorem terminal_event_then_cleanup:
  assumes "run ev j (init_world sc el) = (None, w')"
  shows "\<exists>pre t post.
      trace w' = pre @ [t, Cleanup] @ post \<and> is_terminal t
    \<and> (\<forall>a\<in>set pre. \<not> is_terminal a \<and> a \<noteq> Cleanup)
    \<and> (\<forall>a\<in>set post. \<not> is_terminal a \<and> a \<noteq> Cleanup)
    \<and> filter is_terminal (trace w') = [t]"
  using assms
proof (cases rule: run_cases)
  case (failed e w1)
  have pre: "\<forall>a\<in>set (trace w1). \<not> is_terminal a \<and> a \<noteq> Cleanup"
    using pipeline_no_control [OF failed(1)] by blast
  have post: "\<forall>a\<in>set (delete_errors ev (scratch w1)). \<not> is_terminal a \<and> a \<noteq> Cleanup"
    using delete_errors_plain by blast
  show ?thesis
    using pre post failed(3)
    by (intro exI [of _ "trace w1"] exI [of _ "Emit (Error_signal e)"]
          exI [of _ "delete_errors ev (scratch w1)"])
       (simp add: filter_empty_conv [THEN iffD2])
next
  case (escaped e w1)
  then show ?thesis by simp
next
  case (finished sz w1)
  have pre: "\<forall>a\<in>set (trace w1). \<not> is_terminal a \<and> a \<noteq> Cleanup"
    using pipeline_no_control [OF finished(1)] by blast
  have post: "\<forall>a\<in>set (delete_errors ev (scratch w1)). \<not> is_terminal a \<and> a \<noteq> Cleanup"
    using delete_errors_plain by blast
  show ?thesis
    using pre post finished(4)
    by (intro exI [of _ "trace w1"]
          exI [of _ "Emit (Done_signal (output_file j) (py_round1 (elapsed ev)) sz)"]
          exI [of _ "delete_errors ev (scratch w1)"])
       (simp add: filter_empty_conv [THEN iffD2])
qed

theorem terminal_event_then_cleanup_witness:
  "run env_good job_size (init_world [] no_files)
     = (None, snd (run env_good job_size (init_world [] no_files)))
   \<and> filter is_terminal (trace (snd (run env_good job_size (init_world [] no_files))))
       = [Emit (Done_signal out_clip 7 0)]
   \<and> (\<exists>pre post. trace (snd (run env_good job_size (init_world [] no_files)))
         = pre @ [Emit (Done_signal out_clip 7 0), Cleanup] @ post)"
proof -
  have r: "run env_good job_size (init_world [] no_files)
     = (None, snd (run env_good job_size (init_world [] no_files)))"
    using good_size_result by (metis prod.collapse)
  from terminal_event_then_cleanup [OF r] obtain pre t post where
    "trace (snd (run env_good job_size (init_world [] no_files))) = pre @ [t, Cleanup] @ post"
    "filter is_terminal (trace (snd (run env_good job_size (init_world [] no_files)))) = [t]"
    by blast
  then show ?thesis
    using r good_size_terminal by auto
qed

text \<open>
  C2 as stated fails: after a failed trim the error event is emitted before the cleanup
  starts; and when both passes leave no output file, \<^verbatim>\<open>get_file_size\<close> raises outside the
  \<^verbatim>\<open>try\<close>, the exception leaves \<^verbatim>\<open>run\<close> and no terminal event is emitted at all.
\<close>

theorem terminal_before_cleanup_counterexample:
  "quiet (trace (snd (run env_exit1 job_trim (init_world [] no_files))))
     = [Popen (Trim_copy 10 in_clip 30 out_clip),
        Emit (Error_signal (RuntimeError ''Trimming failed.'')), Cleanup]
   \<and> \<not> cleaned_first (trace (snd (run env_exit1 job_trim (init_world [] no_files))))
   \<and> fst (run env_broken job_size (init_world [] no_files)) = Some OSError
   \<and> filter is_terminal (trace (snd (run env_broken job_size (init_world [] no_files)))) = []"
proof -
  have "filter is_terminal (trace (snd (run env_broken job_size (init_world [] no_files)))) = []"
    using arg_cong [OF broken_size_quiet, of "filter is_terminal"]
    by (simp add: filter_terminal_quiet)
  then show ?thesis
    using exit1_trim_quiet exit1_trim_not_cleaned broken_size_result by simp
qed

text \<open>
  C9. A job with neither a positive size target nor a complete window ends with one error
  event, emitted on the state the job started from: no engine call, no file changed, then
  the cleanup. The error is the \<^verbatim>\<open>TypeError\<close> of the subtraction in \<^verbatim>\<open>trim_video\<close>, or the
  missing binaries.
\<close>

theorem neither_is_rejected:
  assumes "\<not> has_target j" and "\<not> has_window j"
  shows "\<exists>e. run ev j w = (None, cleanup_temp_files ev (emit (Error_signal e) w))
    \<and> e = (if ffmpeg_present ev then TypeError
           else FileNotFoundError ''FFmpeg binaries not found!'')
    \<and> trace (snd (run ev j w))
        = trace w @ Emit (Error_signal e) # Cleanup # delete_errors ev (scratch w)
    \<and> elsewhere (snd (run ev j w)) = elsewhere w"
proof -
  define e where "e = (if ffmpeg_present ev then TypeError
           else FileNotFoundError ''FFmpeg binaries not found!'')"
  have "trim_video ev j None w = (Inl e, w)"
    using assms(2)
    by (auto simp: trim_video_def has_window_def get_ffmpeg_path_def e_def Let_def
             split: option.splits)
  then have "run ev j w = (None, cleanup_temp_files ev (emit (Error_signal e) w))"
    using assms(1) by (simp add: run_def pipeline_def)
  then show ?thesis
    by (intro exI [of _ e]) (simp add: e_def cleanup_closed emit_def act_def)
qed

theorem neither_is_rejected_witness:
  "\<not> has_target job_neither \<and> \<not> has_window job_neither
   \<and> fst (run env_good job_neither (init_world [] no_files)) = None
   \<and> trace (snd (run env_good job_neither (init_world [] no_files)))
       = [Emit (Error_signal TypeError), Cleanup]"
proof -
  have h: "\<not> has_target job_neither" "\<not> has_window job_neither"
    by (simp_all add: has_target_def has_window_def job_neither_def)
  from neither_is_rejected [OF h, of env_good "init_world [] no_files"]
  show ?thesis
    using h by (auto simp: env_good_def init_world_def)
qed



text \<open>
  C1 against the code. Both encode processes exit with return code 1, pass 2 having left
  a partial output file; \<^verbatim>\<open>run_ffmpeg_command\<close> never reads the return code, so the job ends
  with the success event and no error event.
\<close>

theorem encode_exit_code_ignored:
  "exit_code (engine env_exit1 (Encode_pass 1 in_clip (Some (10 * 8 * 1024 / 120)) None)) = Some 1
   \<and> exit_code (engine env_exit1 (Encode_pass 2 in_clip (Some (10 * 8 * 1024 / 120)) (Some out_clip)))
       = Some 1
   \<and> filter is_popen (trace (snd (run env_exit1 job_size (init_world [] no_files))))
       = [Popen (Encode_pass 1 in_clip (Some (10 * 8 * 1024 / 120)) None),
          Popen (Encode_pass 2 in_clip (Some (10 * 8 * 1024 / 120)) (Some out_clip))]
   \<and> fst (run env_exit1 job_size (init_world [] no_files)) = None
   \<and> filter is_terminal (trace (snd (run env_exit1 job_size (init_world [] no_files))))
       = [Emit (Done_signal out_clip 7 0)]"
proof -
  have q: "filter is_popen (quiet tr) = filter is_popen tr" for tr
    by (induction tr rule: quiet.induct) simp_all
  have "filter is_popen (trace (snd (run env_exit1 job_size (init_world [] no_files))))
       = [Popen (Encode_pass 1 in_clip (Some (10 * 8 * 1024 / 120)) None),
          Popen (Encode_pass 2 in_clip (Some (10 * 8 * 1024 / 120)) (Some out_clip))]"
    using arg_cong [OF exit1_size_quiet, of "filter is_popen"] by (simp add: q)
  moreover have "filter is_terminal (trace (snd (run env_exit1 job_size (init_world [] no_files))))
       = [Emit (Done_signal out_clip 7 0)]"
    using arg_cong [OF exit1_size_quiet, of "filter is_terminal"]
    by (simp add: filter_terminal_quiet)
  ultimately show ?thesis
    using exit1_size_result
    by (simp add: env_exit1_def failing_engine_def good_engine_def env_good_def)
qed

end
